theory Spec2Isabelle
  imports Complex_Main
begin

section \<open>Times table worksheet generator: numbers\<close>

text \<open>
  The program is JavaScript. Its numbers are IEEE doubles; the model reads counts, table
  numbers and products as \<^typ>\<open>int\<close> (they stay far below \<open>2 ^ 53\<close>) and every
  length in millimetres or pixels as \<^typ>\<open>real\<close>, so \<open>/\<close> is exact division and
  \<open>Math.pow\<close> is \<open>powr\<close>. \<open>Math.round\<close> rounds to the nearest integer, halves
  towards \<open>+\<infinity>\<close>; \<open>Math.ceil\<close> and \<open>Math.floor\<close> are \<open>ceiling\<close> and
  \<open>floor\<close>.
\<close>

definition Math_round :: "real \<Rightarrow> int" where
  "Math_round x = \<lfloor>x + 1 / 2\<rfloor>"

definition Math_ceil :: "real \<Rightarrow> int" where
  "Math_ceil x = \<lceil>x\<rceil>"

definition Math_floor :: "real \<Rightarrow> int" where
  "Math_floor x = \<lfloor>x\<rfloor>"

definition Math_pow :: "real \<Rightarrow> real \<Rightarrow> real" where
  "Math_pow x y = x powr y"

section \<open>Print layout: \<open>calculateOptimalLayout\<close>\<close>

record LayoutPlan =
  columns :: int
  fontSize :: real
  lineHeight :: real

text \<open>
  The page geometry constants at the head of \<open>calculateOptimalLayout\<close>. Each local
  constant of the function is a definition here, in the order of the source. The model is
  of counts from 1 on, the domain \<open>validateInputs\<close> guards: below 1 the source divides
  by zero or raises a negative number to the power 0.7 and returns \<open>Infinity\<close> or
  \<open>NaN\<close>.
\<close>

definition pageHeight :: real where "pageHeight = 297"
definition pageWidth :: real where "pageWidth = 210"
definition margin :: real where "margin = 15"
definition titleY :: real where "titleY = margin + 8"
definition titleHeight :: real where "titleHeight = 12"
definition titleGap :: real where "titleGap = 5"
definition startY :: real where "startY = titleY + titleHeight + titleGap"
definition maxY :: real where "maxY = pageHeight - margin"
definition usableHeight :: real where "usableHeight = maxY - startY"

definition minFontSize :: real where "minFontSize = 9.5"
definition maxFontSize :: real where "maxFontSize = 20"
definition fontRange :: real where "fontRange = maxFontSize - minFontSize"

text \<open>
  Step 1: the chain of \<open>if\<close>/\<open>else if\<close> on \<open>questionCount\<close>, branch for branch.
  The remainder \<open>%\<close> is taken of a count above 66 only, where it is \<open>mod\<close>.
\<close>

definition layoutColumns :: "int \<Rightarrow> int" where
  "layoutColumns questionCount =
     (if questionCount \<le> 5 then 1
      else if questionCount \<le> 10 then 2
      else if questionCount \<le> 20 then 2
      else if questionCount \<le> 33 then 3
      else if questionCount \<le> 50 then 3
      else if questionCount \<le> 66 then 3
      else if questionCount mod 3 = 0 \<or> questionCount \<ge> 90 then 3
      else 4)"

text \<open>Steps 2 and 3.\<close>

definition questionsPerColumn :: "int \<Rightarrow> int" where
  "questionsPerColumn questionCount =
     Math_ceil (real_of_int questionCount / real_of_int (layoutColumns questionCount))"

definition rawLineHeight :: "int \<Rightarrow> real" where
  "rawLineHeight questionCount = usableHeight / real_of_int (questionsPerColumn questionCount)"

text \<open>Step 4: the power-law curve between the two font bounds.\<close>

definition normalizedCount :: "int \<Rightarrow> real" where
  "normalizedCount questionCount = (real_of_int questionCount - 1) / (99 - 1)"

definition curveFontSize :: "int \<Rightarrow> real" where
  "curveFontSize questionCount =
     maxFontSize - fontRange * Math_pow (normalizedCount questionCount) 0.7"

text \<open>Steps 5 and 6: the cap at 85% of the line height, then the absolute bounds.\<close>

definition maxFontFromLineHeight :: "int \<Rightarrow> real" where
  "maxFontFromLineHeight questionCount = rawLineHeight questionCount * 0.85"

definition finalFontSize :: "int \<Rightarrow> real" where
  "finalFontSize questionCount =
     min (curveFontSize questionCount) (maxFontFromLineHeight questionCount)"

definition clampedFontSize :: "int \<Rightarrow> real" where
  "clampedFontSize questionCount =
     max minFontSize (min maxFontSize (finalFontSize questionCount))"

text \<open>Step 7: the floor on the line height of sparse worksheets.\<close>

definition finalLineHeight :: "int \<Rightarrow> real" where
  "finalLineHeight questionCount =
     (if questionCount \<le> 5 then max (rawLineHeight questionCount) 15
      else if questionCount \<le> 10 then max (rawLineHeight questionCount) 12
      else rawLineHeight questionCount)"

definition calculateOptimalLayout :: "int \<Rightarrow> LayoutPlan" where
  "calculateOptimalLayout questionCount =
     \<lparr> columns = layoutColumns questionCount,
       fontSize = real_of_int (Math_round (clampedFontSize questionCount * 10)) / 10,
       lineHeight = real_of_int (Math_round (finalLineHeight questionCount * 10)) / 10 \<rparr>"

section \<open>Presentation layout\<close>

definition PRESENTATION_MIN_FONT_PX :: real where "PRESENTATION_MIN_FONT_PX = 18"
definition PRESENTATION_MAX_FONT_PX :: real where "PRESENTATION_MAX_FONT_PX = 44"

definition updatePresentationColumns :: "int \<Rightarrow> int" where
  "updatePresentationColumns questionCount =
     (if questionCount \<ge> 1 \<and> questionCount \<le> 9 then 3
      else if questionCount \<ge> 10 \<and> questionCount \<le> 20 then 4
      else if questionCount \<ge> 21 \<and> questionCount \<le> 40 then 5
      else 5)"

text \<open>The font tier chosen from the question count, before the viewport clamp.\<close>

definition baseFontSize :: "int \<Rightarrow> real" where
  "baseFontSize questionCount =
     (if questionCount \<le> 12 then 40
      else if questionCount \<le> 24 then 32
      else if questionCount \<le> 40 then 26
      else if questionCount \<le> 60 then 22
      else 18)"

text \<open>
  The value of the variable \<open>fontSize\<close> after the clamp; \<open>innerHeight\<close> is
  \<open>window.innerHeight\<close>, read from the browser.
\<close>

definition presentationFontSize :: "int \<Rightarrow> real \<Rightarrow> real" where
  "presentationFontSize questionCount innerHeight =
     (let maxAllowed = min PRESENTATION_MAX_FONT_PX (innerHeight / 18)
      in max PRESENTATION_MIN_FONT_PX (min (baseFontSize questionCount) maxAllowed))"

record PresentationLayout =
  presentationColumns :: int
  fontSizePx :: int

definition calculatePresentationLayout :: "int \<Rightarrow> real \<Rightarrow> PresentationLayout" where
  "calculatePresentationLayout questionCount innerHeight =
     \<lparr> presentationColumns = updatePresentationColumns questionCount,
       fontSizePx = Math_round (presentationFontSize questionCount innerHeight) \<rparr>"

text \<open>
  The repository holds a second, earlier copy of the application, without
  \<open>updatePresentationColumns\<close>: there \<open>calculatePresentationLayout\<close> sets the columns in
  the branches of the font tiers and clamps them to \<open>1..5\<close>. Its generator and its
  \<open>calculateOptimalLayout\<close> are the same text as above.
\<close>

definition earlierPresentationColumns :: "int \<Rightarrow> int" where
  "earlierPresentationColumns questionCount =
     (let cols =
        (if questionCount \<le> 12 then 3
         else if questionCount \<le> 24 then 4
         else if questionCount \<le> 40 then 4
         else if questionCount \<le> 60 then 5
         else 5)
      in max 1 (min cols 5))"

section \<open>Question generation\<close>

datatype QuestionType = multiplication | division

record Question =
  qtype :: QuestionType
  base :: int
  other :: int
  productField :: "int option"
  questionText :: string
  answer :: int

text \<open>
  The fields \<open>type\<close> and \<open>product\<close> of a question object are \<open>qtype\<close> and
  \<open>productField\<close> here; only a division has a product.

  A JavaScript string is a sequence of 16-bit code units. Every character the program
  writes is below 256, so a code unit is one \<^typ>\<open>char\<close>: the multiplication sign is
  \<open>U+00D7\<close>, the division sign \<open>U+00F7\<close>. A template literal prints an integer in
  decimal, with a minus sign when negative.
\<close>

definition timesSign :: char where "timesSign = CHR 0xD7"
definition divideSign :: char where "divideSign = CHR 0xF7"
definition blank :: string where "blank = ''______''"

fun digitsOf :: "nat \<Rightarrow> string" where
  "digitsOf n =
     (if n < 10 then [''0123456789'' ! n]
      else digitsOf (n div 10) @ [''0123456789'' ! (n mod 10)])"

definition numberToString :: "int \<Rightarrow> string" where
  "numberToString i = (if i < 0 then CHR ''-'' # digitsOf (nat (- i)) else digitsOf (nat i))"

text \<open>
  \<open>Math.random()\<close> is the only source of randomness. The model takes the sequence of
  its results as \<open>rng\<close> and threads the number of draws made so far; each result is
  expected in \<open>[0, 1)\<close>.
\<close>

definition unitInterval :: "(nat \<Rightarrow> real) \<Rightarrow> bool" where
  "unitInterval rng = (\<forall>i. 0 \<le> rng i \<and> rng i < 1)"

text \<open>
  \<open>array[k]\<close> outside \<open>0 .. length - 1\<close> is \<open>undefined\<close> in JavaScript, not an
  exception: \<open>None\<close> here.
\<close>

definition arrayIndex :: "'a list \<Rightarrow> int \<Rightarrow> 'a option" where
  "arrayIndex array k = (if 0 \<le> k \<and> k < int (length array) then Some (array ! nat k) else None)"

definition pickRandomIndex :: "'a list \<Rightarrow> real \<Rightarrow> int" where
  "pickRandomIndex array r = Math_floor (r * real (length array))"

definition pickRandom :: "'a list \<Rightarrow> real \<Rightarrow> 'a option" where
  "pickRandom array r = arrayIndex array (pickRandomIndex array r)"

definition randomInt :: "int \<Rightarrow> int \<Rightarrow> real \<Rightarrow> int" where
  "randomInt min_v max_v r = Math_floor (r * real_of_int (max_v - min_v + 1)) + min_v"

text \<open>
  With \<open>base\<close> undefined the products are \<open>NaN\<close> and no Question of the data model
  results; the model returns \<open>UndefinedBase\<close> there. The third draw is made only when
  \<open>includeDivision\<close> holds, since \<open>&&\<close> does not evaluate its right side otherwise. The
  result carries the number of draws made.
\<close>

datatype fault = UndefinedBase

definition generateQuestion ::
  "int list \<Rightarrow> bool \<Rightarrow> (nat \<Rightarrow> real) \<Rightarrow> nat \<Rightarrow> fault + (Question \<times> nat)" where
  "generateQuestion selectedTables includeDivision rng k =
     (case pickRandom selectedTables (rng k) of
        None \<Rightarrow> Inl UndefinedBase
      | Some b \<Rightarrow>
          let oth = randomInt 1 12 (rng (k + 1));
              isDivision = (includeDivision \<and> rng (k + 2) < 0.5);
              k' = (if includeDivision then k + 3 else k + 2)
          in if isDivision then
               let prod = b * oth
               in Inr (\<lparr> qtype = division, base = b, other = oth, productField = Some prod,
                         questionText = numberToString prod @ '' '' @ [divideSign] @ '' ''
                           @ numberToString b @ '' = '' @ blank,
                         answer = oth \<rparr>, k')
             else
               Inr (\<lparr> qtype = multiplication, base = b, other = oth, productField = None,
                      questionText = numberToString b @ '' '' @ [timesSign] @ '' ''
                        @ numberToString oth @ '' = '' @ blank,
                      answer = b * oth \<rparr>, k'))"

text \<open>
  \<open>validateInputs\<close>: \<open>numQuestions\<close> is the result of \<open>parseInt\<close>, \<open>None\<close> for
  \<open>NaN\<close>.
\<close>

definition validateInputs :: "int option \<Rightarrow> int list \<Rightarrow> bool" where
  "validateInputs numQuestions selectedTables =
     (let isValid = True;
          isValid = (case numQuestions of
                       None \<Rightarrow> False
                     | Some n \<Rightarrow> if n < 1 \<or> n > 99 then False else isValid);
          isValid = (if length selectedTables = 0 then False else isValid)
      in isValid)"

text \<open>The \<open>for\<close> loop of \<open>generateWorksheet\<close> and \<open>handleDownload\<close>.\<close>

function generateLoop ::
  "int list \<Rightarrow> bool \<Rightarrow> (nat \<Rightarrow> real) \<Rightarrow> int \<Rightarrow> nat \<Rightarrow> nat \<Rightarrow> Question list
     \<Rightarrow> fault + (Question list \<times> nat)" where
  "generateLoop selectedTables includeDivision rng numQuestions i k acc =
     (if int i < numQuestions then
        (case generateQuestion selectedTables includeDivision rng k of
           Inl e \<Rightarrow> Inl e
         | Inr (question, k') \<Rightarrow>
             generateLoop selectedTables includeDivision rng numQuestions (i + 1) k'
               (acc @ [question]))
      else Inr (acc, k))"
  by pat_completeness auto
termination
  by (relation "measure (\<lambda>(t, d, r, n, i, k, acc). nat (n - int i))") auto

text \<open>
  \<open>generateWorksheet\<close> as a step on the global \<open>currentQuestions\<close>: when validation
  fails it returns at once and the list stays as it was.
\<close>

definition generateWorksheet ::
  "int option \<Rightarrow> int list \<Rightarrow> bool \<Rightarrow> (nat \<Rightarrow> real) \<Rightarrow> nat \<Rightarrow> Question list
     \<Rightarrow> fault + (Question list \<times> nat)" where
  "generateWorksheet numQuestions selectedTables includeDivision rng k currentQuestions =
     (if \<not> validateInputs numQuestions selectedTables then Inr (currentQuestions, k)
      else generateLoop selectedTables includeDivision rng (the numQuestions) 0 k [])"

text \<open>
  \<open>String.prototype.replace\<close> with a string pattern replaces the first occurrence;
  \<open>includes\<close> tests for a substring.
\<close>

fun replaceFirst :: "string \<Rightarrow> string \<Rightarrow> string \<Rightarrow> string" where
  "replaceFirst pat rep [] = (if pat = [] then rep else [])"
| "replaceFirst pat rep (c # cs) =
     (if take (length pat) (c # cs) = pat then rep @ drop (length pat) (c # cs)
      else c # replaceFirst pat rep cs)"

fun includes_str :: "string \<Rightarrow> string \<Rightarrow> bool" where
  "includes_str [] pat = (pat = [])"
| "includes_str (c # cs) pat = (take (length pat) (c # cs) = pat \<or> includes_str cs pat)"

text \<open>The line \<open>renderAnswers\<close> writes for a question.\<close>

definition answerLine :: "Question \<Rightarrow> string" where
  "answerLine question = replaceFirst blank (numberToString (answer question)) (questionText question)"

section \<open>PDF export\<close>

text \<open>
  The jsPDF document is outside the program. The model takes from it the page size and
  \<open>splitTextToSize\<close>, which wraps a text to a width, and records each line painted
  with the indices \<open>questionIndex\<close>, \<open>col\<close>, \<open>i\<close> and \<open>lineIndex\<close> current at the
  call of \<open>doc.text\<close>, the position and the text. On the answers page the last line of a
  question is painted in two pieces at the same \<open>yPosition\<close>, the answer in red:
  \<open>paintAnswerRed\<close> holds for such a line.
\<close>

record PdfDoc =
  docPageWidth :: real
  docPageHeight :: real
  splitTextToSize :: "string \<Rightarrow> real \<Rightarrow> string list"

record paint =
  paintQuestion :: int
  paintColumn :: nat
  paintRow :: nat
  paintLine :: nat
  paintX :: real
  paintY :: real
  paintText :: string
  paintAnswerRed :: bool

record PdfPage =
  pageTitle :: string
  pageFontSize :: real
  pagePaints :: "paint list"
  pageFooter :: string

text \<open>The text of a question on a page, before wrapping.\<close>

definition numberedText :: "bool \<Rightarrow> Question \<Rightarrow> int \<Rightarrow> string" where
  "numberedText showAnswers question questionIndex =
     (let questionNumber = questionIndex + 1;
          spacing = (if questionNumber \<ge> 10 then ''  '' else '' '')
      in if showAnswers then
           let questionPart = replaceFirst blank [] (questionText question)
           in numberToString questionNumber @ '')'' @ spacing @ questionPart
                @ numberToString (answer question)
         else numberToString questionNumber @ '')'' @ spacing @ questionText question)"

text \<open>
  \<open>lines.forEach\<close>: a line that would overflow is skipped by \<open>return\<close>, which goes on
  to the next line; a painted line that is not the last advances \<open>yPosition\<close> by 60% of
  the line spacing. The result is the lines painted and the final \<open>yPosition\<close>. The
  primed names are the parameters of \<open>renderPdfPage\<close>.
\<close>

fun drawLines ::
  "real \<Rightarrow> real \<Rightarrow> bool \<Rightarrow> string \<Rightarrow> int \<Rightarrow> nat \<Rightarrow> nat \<Rightarrow> real \<Rightarrow> nat
     \<Rightarrow> string list \<Rightarrow> nat \<Rightarrow> real \<Rightarrow> paint list \<times> real" where
  "drawLines maxY' lineSpacing showAnswers answerValue questionIndex col i columnX lineCount
     [] lineIndex yPosition = ([], yPosition)"
| "drawLines maxY' lineSpacing showAnswers answerValue questionIndex col i columnX lineCount
     (line # rest) lineIndex yPosition =
     (if yPosition > maxY' - lineSpacing then
        drawLines maxY' lineSpacing showAnswers answerValue questionIndex col i columnX lineCount
          rest (lineIndex + 1) yPosition
      else
        let p = \<lparr> paintQuestion = questionIndex, paintColumn = col, paintRow = i,
                  paintLine = lineIndex, paintX = columnX, paintY = yPosition,
                  paintText = line,
                  paintAnswerRed = (showAnswers \<and> answerValue \<noteq> []
                    \<and> int lineIndex = int lineCount - 1 \<and> includes_str line answerValue) \<rparr>;
            yNext = (if int lineIndex < int lineCount - 1 then yPosition + lineSpacing * 0.6
                     else yPosition);
            (ps, yEnd) = drawLines maxY' lineSpacing showAnswers answerValue questionIndex
                           col i columnX lineCount rest (lineIndex + 1) yNext
        in (p # ps, yEnd))"

text \<open>The inner \<open>for\<close> loop over the rows \<open>i\<close> of one column, with its two \<open>break\<close>s.\<close>

function columnLoop ::
  "(string \<Rightarrow> real \<Rightarrow> string list) \<Rightarrow> Question list \<Rightarrow> real \<Rightarrow> real \<Rightarrow> int \<Rightarrow> real
     \<Rightarrow> bool \<Rightarrow> nat \<Rightarrow> real \<Rightarrow> nat \<Rightarrow> real \<Rightarrow> paint list" where
  "columnLoop split questions columnWidth maxY' questionsPerColumn' lineSpacing showAnswers
     col columnX i yPosition =
     (if int i < questionsPerColumn' then
        let questionIndex = int col * questionsPerColumn' + int i
        in if questionIndex \<ge> int (length questions) then []
           else if yPosition > maxY' - lineSpacing then []
           else
             let question = questions ! nat questionIndex;
                 questionText' = numberedText showAnswers question questionIndex;
                 answerValue = (if showAnswers then numberToString (answer question) else []);
                 maxWidth = columnWidth - 8;
                 lines = split questionText' maxWidth;
                 (ps, yEnd) = drawLines maxY' lineSpacing showAnswers answerValue questionIndex
                                col i columnX (length lines) lines 0 yPosition
             in ps @ columnLoop split questions columnWidth maxY' questionsPerColumn'
                       lineSpacing showAnswers col columnX (i + 1) (yEnd + lineSpacing)
      else [])"
  by pat_completeness auto
termination
  by (relation "measure (\<lambda>(s, qs, w, m, qpc, ls, a, col, x, i, y). nat (qpc - int i))") auto

text \<open>The outer \<open>for\<close> loop over the columns; each column starts again at \<open>startY\<close>.\<close>

function pageLoop ::
  "(string \<Rightarrow> real \<Rightarrow> string list) \<Rightarrow> Question list \<Rightarrow> int \<Rightarrow> real \<Rightarrow> real \<Rightarrow> real
     \<Rightarrow> real \<Rightarrow> real \<Rightarrow> int \<Rightarrow> real \<Rightarrow> bool \<Rightarrow> nat \<Rightarrow> paint list" where
  "pageLoop split questions layoutCols margin' columnWidth columnGap startY' maxY'
     questionsPerColumn' lineSpacing showAnswers col =
     (if int col < layoutCols then
        let columnX = margin' + real col * (columnWidth + columnGap)
        in columnLoop split questions columnWidth maxY' questionsPerColumn' lineSpacing
             showAnswers col columnX 0 startY'
           @ pageLoop split questions layoutCols margin' columnWidth columnGap startY' maxY'
               questionsPerColumn' lineSpacing showAnswers (col + 1)
      else [])"
  by pat_completeness auto
termination
  by (relation "measure (\<lambda>(s, qs, c, m, w, g, sy, my, qpc, ls, a, col). nat (c - int col))")
    auto

definition renderPdfPage ::
  "PdfDoc \<Rightarrow> Question list \<Rightarrow> LayoutPlan \<Rightarrow> real \<Rightarrow> real \<Rightarrow> real \<Rightarrow> real \<Rightarrow> real \<Rightarrow> real
     \<Rightarrow> real \<Rightarrow> int \<Rightarrow> real \<Rightarrow> bool \<Rightarrow> PdfPage" where
  "renderPdfPage doc questions layout pageWidth' pageHeight' margin' columnWidth columnGap
     startY' maxY' questionsPerColumn' lineSpacing showAnswers =
     \<lparr> pageTitle = (if showAnswers then ''Timestable worksheet - Answer key''
                    else ''Timestable worksheet''),
       pageFontSize = fontSize layout,
       pagePaints = pageLoop (splitTextToSize doc) questions (columns layout) margin'
                      columnWidth columnGap startY' maxY' questionsPerColumn' lineSpacing
                      showAnswers 0,
       pageFooter = ''timestableworksheet.com'' \<rparr>"

text \<open>
  \<open>downloadWorksheetPdf\<close>: the pages of the document in order. The file name, which
  holds the date, is left out. In the earlier copy of the application the same nested iteration
  stands in \<open>downloadWorksheetPdf\<close> itself and paints the page with the blanks only.
\<close>

definition downloadWorksheetPdf :: "PdfDoc \<Rightarrow> Question list \<Rightarrow> PdfPage list" where
  "downloadWorksheetPdf doc questions =
     (let layout = calculateOptimalLayout (int (length questions));
          pageWidth' = docPageWidth doc;
          pageHeight' = docPageHeight doc;
          margin' = 15;
          usableWidth = pageWidth' - (margin' * 2);
          columnWidth = (usableWidth - (real_of_int (columns layout) - 1) * 5)
                          / real_of_int (columns layout);
          columnGap = 5;
          titleY' = margin' + 8;
          titleHeight' = 12;
          startY' = titleY' + titleHeight' + 5;
          maxY' = pageHeight' - margin';
          questionsPerColumn' =
            Math_ceil (real (length questions) / real_of_int (columns layout));
          lineSpacing = lineHeight layout
      in [renderPdfPage doc questions layout pageWidth' pageHeight' margin' columnWidth
            columnGap startY' maxY' questionsPerColumn' lineSpacing False,
          renderPdfPage doc questions layout pageWidth' pageHeight' margin' columnWidth
            columnGap startY' maxY' questionsPerColumn' lineSpacing True])"

text \<open>
  An A4 document whose text never needs wrapping: \<open>splitTextToSize\<close> returns the text
  as its only line. The page size is the one the comments of \<open>downloadWorksheetPdf\<close>
  give.
\<close>

definition a4NoWrap :: PdfDoc where
  "a4NoWrap = \<lparr> docPageWidth = 210, docPageHeight = 297,
                splitTextToSize = (\<lambda>text maxWidth. [text]) \<rparr>"

text \<open>
  Where a line is painted: the indices and the position, without the text and the colour.
\<close>

definition paintPlace :: "paint \<Rightarrow> int \<times> nat \<times> nat \<times> nat \<times> real \<times> real" where
  "paintPlace p = (paintQuestion p, paintColumn p, paintRow p, paintLine p, paintX p, paintY p)"

text \<open>
  A sample question: the one \<open>generateQuestion\<close> returns for the tables 2, 5 and 10 when
  every draw is \<open>1/4\<close>.
\<close>

definition sampleQuestion :: Question where
  "sampleQuestion = \<lparr> qtype = multiplication, base = 2, other = 4, productField = None,
                      questionText = ''2 '' @ [timesSign] @ '' 4 = ______'', answer = 8 \<rparr>"

declare digitsOf.simps [simp del]
declare generateLoop.simps [simp del]
declare columnLoop.simps [simp del]
declare pageLoop.simps [simp del]

section \<open>Facts about the print layout\<close>

lemma usableHeight_eq: "usableHeight = 242"
  by (simp add: usableHeight_def maxY_def startY_def pageHeight_def margin_def titleY_def
      titleHeight_def titleGap_def)

lemma layoutColumns_cases:
  "layoutColumns n = 1 \<or> layoutColumns n = 2 \<or> layoutColumns n = 3 \<or> layoutColumns n = 4"
  by (simp add: layoutColumns_def)

lemma layoutColumns_pos: "0 < layoutColumns n"
  using layoutColumns_cases [of n] by auto

lemma questionsPerColumn_pos:
  assumes "1 \<le> n"
  shows "1 \<le> questionsPerColumn n"
proof -
  have "0 < real_of_int n / real_of_int (layoutColumns n)"
    using assms layoutColumns_pos [of n] by simp
  then show ?thesis
    unfolding questionsPerColumn_def Math_ceil_def by linarith
qed

lemma questionsPerColumn_le:
  assumes "1 \<le> n"
  shows "questionsPerColumn n \<le> n"
proof -
  have "real_of_int n / real_of_int (layoutColumns n) \<le> real_of_int n"
    using assms layoutColumns_cases [of n] by auto
  then show ?thesis
    unfolding questionsPerColumn_def Math_ceil_def by (simp add: ceiling_le_iff)
qed

lemma Math_round_mono: "x \<le> y \<Longrightarrow> Math_round x \<le> Math_round y"
  unfolding Math_round_def by (simp add: floor_mono)

lemma Math_round_of_int: "Math_round (real_of_int k) = k"
  unfolding Math_round_def by linarith

lemma clampedFontSize_bounds:
  "minFontSize \<le> clampedFontSize n \<and> clampedFontSize n \<le> maxFontSize"
  by (simp add: clampedFontSize_def minFontSize_def maxFontSize_def)

lemma Math_round_le: "real_of_int (Math_round x) \<le> x + 1 / 2"
  unfolding Math_round_def by linarith

lemma Math_round_gt: "x - 1 / 2 < real_of_int (Math_round x)"
  unfolding Math_round_def by linarith

lemma rawLineHeight_ge:
  assumes "1 \<le> n" "n \<le> 99"
  shows "242 / 99 \<le> rawLineHeight n"
proof -
  have "questionsPerColumn n \<le> 99"
    using questionsPerColumn_le [of n] assms by simp
  moreover have "1 \<le> questionsPerColumn n"
    using questionsPerColumn_pos assms by simp
  ultimately have "242 / 99 \<le> 242 / real_of_int (questionsPerColumn n)"
    by (simp add: field_simps)
  thus ?thesis by (simp add: rawLineHeight_def usableHeight_eq)
qed

lemma finalLineHeight_ge: "rawLineHeight n \<le> finalLineHeight n"
  by (simp add: finalLineHeight_def)

lemma clampedFontSize_cap:
  "clampedFontSize n \<le> max minFontSize (maxFontFromLineHeight n)"
  by (simp add: clampedFontSize_def finalFontSize_def minFontSize_def maxFontSize_def)

lemma clampedFontSize_floor:
  "maxFontFromLineHeight n \<le> minFontSize \<Longrightarrow> clampedFontSize n = minFontSize"
  by (simp add: clampedFontSize_def finalFontSize_def minFontSize_def maxFontSize_def)

text \<open>
  C1. For every question count from 1 to 99 the number of columns of the print layout is
  1 up to 5 questions, 2 from 6 to 20, 3 from 21 to 66, and from 67 to 99 it is 3 when the
  count is a multiple of 3 or at least 90 and 4 otherwise; the counts 5, 6, 20, 21, 66, 67,
  69 and 90 give 1, 2, 2, 3, 3, 4, 3 and 3 columns.
\<close>

theorem print_columns_step_function:
  assumes "1 \<le> n" "n \<le> 99"
  shows "columns (calculateOptimalLayout n)
           = (if n \<le> 5 then 1 else if n \<le> 20 then 2 else if n \<le> 66 then 3
              else if n mod 3 = 0 \<or> n \<ge> 90 then 3 else 4)
     \<and> map (\<lambda>k. columns (calculateOptimalLayout k)) [5, 6, 20, 21, 66, 67, 69, 90]
           = [1, 2, 2, 3, 3, 4, 3, 3]"
  using assms by (simp add: calculateOptimalLayout_def layoutColumns_def)

theorem print_columns_step_function_witness:
  "(1 :: int) \<le> 67 \<and> (67 :: int) \<le> 99 \<and> columns (calculateOptimalLayout 67) = 4
   \<and> columns (calculateOptimalLayout 69) = 3"
  using print_columns_step_function [of 67] by simp

text \<open>
  C2. For every question count from 1 to 99 the print layout has 1, 2, 3 or 4 columns, a
  font size between 9.5 and 20 and a line height above 0. The function is a definition
  by cases and arithmetic, so it returns for every input.
\<close>

theorem print_layout_bounded:
  assumes "1 \<le> n" "n \<le> 99"
  shows "columns (calculateOptimalLayout n) \<in> {1, 2, 3, 4}
     \<and> 9.5 \<le> fontSize (calculateOptimalLayout n)
     \<and> fontSize (calculateOptimalLayout n) \<le> 20
     \<and> 0 < lineHeight (calculateOptimalLayout n)"
proof -
  have c: "columns (calculateOptimalLayout n) \<in> {1, 2, 3, 4}"
    using layoutColumns_cases [of n] by (auto simp: calculateOptimalLayout_def)
  have b: "95 \<le> clampedFontSize n * 10" "clampedFontSize n * 10 \<le> 200"
    using clampedFontSize_bounds [of n] by (simp_all add: minFontSize_def maxFontSize_def)
  have "Math_round (real_of_int 95) \<le> Math_round (clampedFontSize n * 10)"
    by (rule Math_round_mono) (use b in simp)
  hence lo: "95 \<le> Math_round (clampedFontSize n * 10)"
    by (simp only: Math_round_of_int)
  have "Math_round (clampedFontSize n * 10) \<le> Math_round (real_of_int 200)"
    by (rule Math_round_mono) (use b in simp)
  hence hi: "Math_round (clampedFontSize n * 10) \<le> 200"
    by (simp only: Math_round_of_int)
  have "242 / 99 \<le> finalLineHeight n"
    using rawLineHeight_ge [OF assms] finalLineHeight_ge [of n] by linarith
  hence "real_of_int 24 \<le> finalLineHeight n * 10" by simp
  hence "Math_round (real_of_int 24) \<le> Math_round (finalLineHeight n * 10)"
    by (rule Math_round_mono)
  hence l: "24 \<le> Math_round (finalLineHeight n * 10)"
    by (simp only: Math_round_of_int)
  show ?thesis using c lo hi l by (simp add: calculateOptimalLayout_def)
qed

theorem print_layout_bounded_witness:
  "(1 :: int) \<le> 99 \<and> (99 :: int) \<le> 99
   \<and> columns (calculateOptimalLayout 99) \<in> {1, 2, 3, 4}
   \<and> 9.5 \<le> fontSize (calculateOptimalLayout 99)
   \<and> fontSize (calculateOptimalLayout 99) \<le> 20
   \<and> 0 < lineHeight (calculateOptimalLayout 99)"
  using print_layout_bounded [of 99] by simp

text \<open>
  C3, as stated: the font size returned never exceeds 85% of the line height returned. It
  fails at 99 questions: 33 rows give a line height of 7.3, 85% of it is below the minimum
  font size, and the later clamp to the font bounds raises the font to 9.5.
\<close>

theorem print_font_exceeds_row_at_99:
  "\<not> fontSize (calculateOptimalLayout 99) \<le> 0.85 * lineHeight (calculateOptimalLayout 99)"
  by (simp add: calculateOptimalLayout_def clampedFontSize_def finalFontSize_def
      maxFontFromLineHeight_def finalLineHeight_def rawLineHeight_def usableHeight_eq
      questionsPerColumn_def layoutColumns_def Math_ceil_def Math_round_def minFontSize_def
      maxFontSize_def)

text \<open>
  C3, amended: before rounding, the font size never exceeds the larger of the minimum font
  size 9.5 and 85% of the line height \<open>usableHeight / questionsPerColumn\<close>; the font size
  returned never exceeds the larger of 9.5 and 85% of the line height returned plus 0.1 of
  rounding; and when 85% of the line height is at most 9.5 the font size returned is 9.5,
  the minimum winning over the cap.
\<close>

theorem print_font_cap_up_to_minimum:
  assumes "1 \<le> n" "n \<le> 99"
  shows "clampedFontSize n \<le> max minFontSize (0.85 * rawLineHeight n)
     \<and> fontSize (calculateOptimalLayout n)
         \<le> max 9.5 (0.85 * lineHeight (calculateOptimalLayout n) + 0.1)
     \<and> (0.85 * rawLineHeight n \<le> 9.5 \<longrightarrow> fontSize (calculateOptimalLayout n) = 9.5)"
proof -
  let ?L = "calculateOptimalLayout n"
  have a: "clampedFontSize n \<le> max minFontSize (0.85 * rawLineHeight n)"
    using clampedFontSize_cap [of n] by (simp add: maxFontFromLineHeight_def mult.commute)
  have fs: "fontSize ?L = real_of_int (Math_round (clampedFontSize n * 10)) / 10"
    by (simp add: calculateOptimalLayout_def)
  have lh: "lineHeight ?L = real_of_int (Math_round (finalLineHeight n * 10)) / 10"
    by (simp add: calculateOptimalLayout_def)
  have c: "fontSize ?L = 9.5" if "0.85 * rawLineHeight n \<le> 9.5"
  proof -
    have "clampedFontSize n = minFontSize"
      using that
      by (intro clampedFontSize_floor) (simp add: maxFontFromLineHeight_def minFontSize_def)
    hence "Math_round (clampedFontSize n * 10) = 95"
      unfolding Math_round_def minFontSize_def by linarith
    thus ?thesis unfolding fs by simp
  qed
  have b: "fontSize ?L \<le> max 9.5 (0.85 * lineHeight ?L + 0.1)"
  proof (cases "0.85 * rawLineHeight n \<le> 9.5")
    case True
    then show ?thesis using c by simp
  next
    case False
    hence "clampedFontSize n \<le> 0.85 * rawLineHeight n"
      using a by (simp add: minFontSize_def)
    moreover have "fontSize ?L \<le> clampedFontSize n + 0.05"
      unfolding fs using Math_round_le [of "clampedFontSize n * 10"] by simp
    moreover have "finalLineHeight n - 0.05 < lineHeight ?L"
      unfolding lh using Math_round_gt [of "finalLineHeight n * 10"] by simp
    ultimately have "fontSize ?L \<le> 0.85 * lineHeight ?L + 0.1"
      using finalLineHeight_ge [of n] unfolding power2_eq_square by linarith
    then show ?thesis by simp
  qed
  show ?thesis using a b c by blast
qed

theorem print_font_cap_up_to_minimum_witness:
  "(1 :: int) \<le> 99 \<and> (99 :: int) \<le> 99 \<and> 0.85 * rawLineHeight 99 \<le> 9.5
   \<and> fontSize (calculateOptimalLayout 99) = 9.5
   \<and> fontSize (calculateOptimalLayout 99)
       \<le> max 9.5 (0.85 * lineHeight (calculateOptimalLayout 99) + 0.1)"
proof -
  have h1: "(1 :: int) \<le> 99" and h2: "(99 :: int) \<le> 99"
    by simp_all
  have h: "0.85 * rawLineHeight 99 \<le> 9.5"
    by (simp add: rawLineHeight_def usableHeight_eq questionsPerColumn_def layoutColumns_def
        Math_ceil_def)
  show ?thesis using h h1 print_font_cap_up_to_minimum [OF h1 h2] by blast
qed

section \<open>Facts about the presentation layout\<close>

text \<open>
  C5. For every question count from 1 on, the presentation layout has 3 columns up to 9
  questions, 4 from 10 to 20 and 5 from 21 on; the number of columns never decreases as
  the count grows; the counts 9, 10, 21 and 100 give 3, 4, 5 and 5 columns.
\<close>

theorem presentation_columns_tiers:
  assumes "1 \<le> n"
  shows "presentationColumns (calculatePresentationLayout n h)
           = (if n \<le> 9 then 3 else if n \<le> 20 then 4 else 5)
     \<and> (\<forall>m. 1 \<le> m \<and> m \<le> n \<longrightarrow>
            presentationColumns (calculatePresentationLayout m h)
              \<le> presentationColumns (calculatePresentationLayout n h))
     \<and> map (\<lambda>k. presentationColumns (calculatePresentationLayout k h)) [9, 10, 21, 100]
           = [3, 4, 5, 5]"
  using assms by (simp add: calculatePresentationLayout_def updatePresentationColumns_def)

theorem presentation_columns_tiers_witness:
  "(1 :: int) \<le> 21 \<and> (1 :: int) \<le> 10 \<and> (10 :: int) \<le> 21
   \<and> presentationColumns (calculatePresentationLayout 21 800) = 5
   \<and> presentationColumns (calculatePresentationLayout 10 800)
       \<le> presentationColumns (calculatePresentationLayout 21 800)"
proof -
  have h: "(1 :: int) \<le> 21" by simp
  note t = presentation_columns_tiers [OF h, of 800]
  from t have "presentationColumns (calculatePresentationLayout 21 800) = 5" by simp
  moreover from t have "presentationColumns (calculatePresentationLayout 10 800)
       \<le> presentationColumns (calculatePresentationLayout 21 800)" by simp
  ultimately show ?thesis by simp
qed

text \<open>
  The earlier copy of the application chooses the columns with the font tiers: 10
  questions get 3 columns there and 21 questions get 4.
\<close>

lemma earlierPresentationColumns_differs:
  "earlierPresentationColumns 10 = 3 \<and> updatePresentationColumns 10 = 4
   \<and> earlierPresentationColumns 21 = 4 \<and> updatePresentationColumns 21 = 5"
  by (simp add: earlierPresentationColumns_def updatePresentationColumns_def)

text \<open>
  C6. The font size of the presentation layout is the rounded value of
  \<open>max 18 (min baseFontSize (min 44 (innerHeight / 18)))\<close>, so it is at least 18 pixels
  for every question count and every viewport height: the minimum wins over the ceiling
  taken from the viewport. With 12 questions and a viewport height of 100 the font size
  is 18, above \<open>100 / 18\<close>.
\<close>

theorem presentation_font_minimum_wins:
  "presentationFontSize n h = max 18 (min (baseFontSize n) (min 44 (h / 18)))
   \<and> fontSizePx (calculatePresentationLayout n h) = Math_round (presentationFontSize n h)
   \<and> 18 \<le> fontSizePx (calculatePresentationLayout n h)
   \<and> fontSizePx (calculatePresentationLayout 12 100) = 18
   \<and> (100 :: real) / 18 < 18"
proof -
  have f: "presentationFontSize n h = max 18 (min (baseFontSize n) (min 44 (h / 18)))"
    by (simp add: presentationFontSize_def PRESENTATION_MIN_FONT_PX_def
        PRESENTATION_MAX_FONT_PX_def)
  have "real_of_int 18 \<le> presentationFontSize n h"
    unfolding f by simp
  hence "Math_round (real_of_int 18) \<le> Math_round (presentationFontSize n h)"
    by (rule Math_round_mono)
  hence g: "18 \<le> Math_round (presentationFontSize n h)"
    by (simp only: Math_round_of_int)
  have e: "fontSizePx (calculatePresentationLayout 12 100) = 18"
    by (simp add: calculatePresentationLayout_def presentationFontSize_def baseFontSize_def
        PRESENTATION_MIN_FONT_PX_def PRESENTATION_MAX_FONT_PX_def Math_round_def)
  show ?thesis using f g e by (simp add: calculatePresentationLayout_def)
qed

section \<open>Facts about question generation\<close>

lemma digitsOf_chars: "set (digitsOf n) \<subseteq> set ''0123456789''"
proof (induction n rule: digitsOf.induct)
  case (1 n)
  show ?case
  proof (cases "n < 10")
    case True
    hence "''0123456789'' ! n \<in> set ''0123456789''"
      by (intro nth_mem) simp
    with True show ?thesis by (subst digitsOf.simps) simp
  next
    case False
    have "n mod 10 < length ''0123456789''" by simp
    hence "''0123456789'' ! (n mod 10) \<in> set ''0123456789''"
      by (rule nth_mem)
    with False 1 show ?thesis by (subst digitsOf.simps) simp
  qed
qed

lemma numberToString_no_underscore: "CHR ''_'' \<notin> set (numberToString i)"
  using digitsOf_chars [of "nat i"] digitsOf_chars [of "nat (- i)"]
  by (auto simp: numberToString_def)

lemma replaceFirst_blank:
  "CHR ''_'' \<notin> set pre \<Longrightarrow> replaceFirst blank rep (pre @ blank) = pre @ rep"
proof (induction pre)
  case Nil
  show ?case by (simp add: blank_def)
next
  case (Cons c cs)
  hence "c \<noteq> CHR ''_''" by auto
  hence "take (length blank) ((c # cs) @ blank) \<noteq> blank"
    by (auto simp: blank_def)
  with Cons show ?case by simp
qed

lemma pickRandomIndex_range:
  assumes "array \<noteq> []" "0 \<le> r" "r < 1"
  shows "0 \<le> pickRandomIndex array r \<and> pickRandomIndex array r \<le> int (length array) - 1"
proof -
  have l: "0 < real (length array)" using assms(1) by simp
  have "0 \<le> r * real (length array)" using assms(2) by simp
  moreover have "r * real (length array) < real (length array)"
    using assms(3) l by simp
  ultimately show ?thesis
    unfolding pickRandomIndex_def Math_floor_def by (simp add: floor_less_iff)
qed

lemma pickRandom_Some:
  assumes "array \<noteq> []" "0 \<le> r" "r < 1"
  shows "pickRandom array r = Some (array ! nat (pickRandomIndex array r))
     \<and> array ! nat (pickRandomIndex array r) \<in> set array"
proof -
  have r: "0 \<le> pickRandomIndex array r" "pickRandomIndex array r < int (length array)"
    using pickRandomIndex_range [OF assms] by simp_all
  hence "nat (pickRandomIndex array r) < length array" by simp
  hence "array ! nat (pickRandomIndex array r) \<in> set array" by (rule nth_mem)
  thus ?thesis using r by (simp add: pickRandom_def arrayIndex_def)
qed

lemma randomInt_range:
  assumes "0 \<le> r" "r < 1"
  shows "1 \<le> randomInt 1 12 r \<and> randomInt 1 12 r \<le> 12"
proof -
  have "0 \<le> r * 12" "r * 12 < 12" using assms by simp_all
  hence "0 \<le> \<lfloor>r * 12\<rfloor>" "\<lfloor>r * 12\<rfloor> < 12"
    by (simp_all add: floor_less_iff)
  thus ?thesis by (simp add: randomInt_def Math_floor_def)
qed

lemma generateQuestion_cases:
  assumes "generateQuestion selectedTables includeDivision rng k = Inr (q, k')"
  shows "(qtype q = multiplication \<and> productField q = None
          \<and> questionText q = numberToString (base q) @ '' '' @ [timesSign] @ '' ''
                @ numberToString (other q) @ '' = '' @ blank
          \<and> answer q = base q * other q)
       \<or> (qtype q = division \<and> includeDivision \<and> productField q = Some (base q * other q)
          \<and> questionText q = numberToString (base q * other q) @ '' '' @ [divideSign] @ '' ''
                @ numberToString (base q) @ '' = '' @ blank
          \<and> answer q = other q)"
  using assms
  by (auto simp: generateQuestion_def Let_def split: option.splits if_splits)

lemma generateQuestion_total:
  assumes "selectedTables \<noteq> []" "unitInterval rng"
  shows "\<exists>q. generateQuestion selectedTables includeDivision rng k
            = Inr (q, if includeDivision then k + 3 else k + 2)
          \<and> base q \<in> set selectedTables \<and> 1 \<le> other q \<and> other q \<le> 12
          \<and> (\<not> includeDivision \<longrightarrow> qtype q = multiplication)"
proof -
  have r: "0 \<le> rng k" "rng k < 1" "0 \<le> rng (k + 1)" "rng (k + 1) < 1"
    using assms(2) by (simp_all add: unitInterval_def)
  note p = pickRandom_Some [OF assms(1) r(1) r(2)]
  note o = randomInt_range [OF r(3) r(4)]
  show ?thesis using p o by (simp add: generateQuestion_def Let_def)
qed

lemma generateQuestion_sample:
  "generateQuestion [2, 5, 10] False (\<lambda>i. 1 / 4) k = Inr (sampleQuestion, k + 2)"
  by (simp add: generateQuestion_def pickRandom_def pickRandomIndex_def arrayIndex_def
      Math_floor_def randomInt_def numberToString_def blank_def sampleQuestion_def
      digitsOf.simps)

lemma generateQuestion_sample_division:
  "generateQuestion [2, 5, 10] True (\<lambda>i. 1 / 4) k
     = Inr (\<lparr> qtype = division, base = 2, other = 4, productField = Some 8,
              questionText = ''8 '' @ [divideSign] @ '' 2 = ______'', answer = 4 \<rparr>, k + 3)"
  by (simp add: generateQuestion_def pickRandom_def pickRandomIndex_def arrayIndex_def
      Math_floor_def randomInt_def numberToString_def blank_def digitsOf.simps)

lemma generateLoop_multiplication:
  assumes "selectedTables \<noteq> []" "unitInterval rng" "\<not> includeDivision"
  shows "\<exists>qs k'. generateLoop selectedTables includeDivision rng n i k acc = Inr (qs, k')
           \<and> length qs = length acc + nat (n - int i)
           \<and> (\<forall>q \<in> set qs. q \<in> set acc \<or> (qtype q = multiplication
                  \<and> base q \<in> set selectedTables \<and> 1 \<le> other q \<and> other q \<le> 12))"
  using assms
proof (induction selectedTables includeDivision rng n i k acc rule: generateLoop.induct)
  case (1 selectedTables includeDivision rng numQuestions i k acc)
  show ?case
  proof (cases "int i < numQuestions")
    case False
    then show ?thesis by (subst generateLoop.simps) simp
  next
    case True
    obtain q where q: "generateQuestion selectedTables includeDivision rng k = Inr (q, k + 2)"
      "base q \<in> set selectedTables" "1 \<le> other q" "other q \<le> 12" "qtype q = multiplication"
      using generateQuestion_total [OF "1.prems"(1) "1.prems"(2), of includeDivision k]
        "1.prems"(3)
      by auto
    obtain qs k' where r:
      "generateLoop selectedTables includeDivision rng numQuestions (i + 1) (k + 2) (acc @ [q])
         = Inr (qs, k')"
      "length qs = length (acc @ [q]) + nat (numQuestions - int (i + 1))"
      "\<forall>x \<in> set qs. x \<in> set (acc @ [q]) \<or> (qtype x = multiplication
                  \<and> base x \<in> set selectedTables \<and> 1 \<le> other x \<and> other x \<le> 12)"
      using "1.IH" [OF True q(1) refl "1.prems"] by blast
    have "generateLoop selectedTables includeDivision rng numQuestions i k acc = Inr (qs, k')"
      using True q(1) r(1) by (subst generateLoop.simps) simp
    moreover have "length qs = length acc + nat (numQuestions - int i)"
      using r(2) True by simp
    moreover have "\<forall>x \<in> set qs. x \<in> set acc \<or> (qtype x = multiplication
                  \<and> base x \<in> set selectedTables \<and> 1 \<le> other x \<and> other x \<le> 12)"
      using r(3) q by auto
    ultimately show ?thesis by blast
  qed
qed

text \<open>
  C7. Every question that \<open>generateQuestion\<close> returns is arithmetically right. A
  multiplication has \<open>answer = base * other\<close> and the text \<open>base \<times> other = ______\<close>; a
  division shows the dividend \<open>base * other\<close> and the divisor \<open>base\<close> and has
  \<open>answer = other\<close>. The line with the answer in place of the blank, as
  \<open>renderAnswers\<close> writes it, reads \<open>base \<times> other = base * other\<close>, or
  \<open>base * other \<div> base = other\<close>, where the quotient is the answer when the base is
  not 0.
\<close>

theorem question_arithmetic_invariant:
  assumes "generateQuestion selectedTables includeDivision rng k = Inr (q, k')"
  shows "(qtype q = multiplication \<longrightarrow>
            answer q = base q * other q
          \<and> questionText q = numberToString (base q) @ '' '' @ [timesSign] @ '' ''
                @ numberToString (other q) @ '' = '' @ blank
          \<and> answerLine q = numberToString (base q) @ '' '' @ [timesSign] @ '' ''
                @ numberToString (other q) @ '' = '' @ numberToString (base q * other q))
       \<and> (qtype q = division \<longrightarrow>
            answer q = other q
          \<and> productField q = Some (base q * other q)
          \<and> questionText q = numberToString (base q * other q) @ '' '' @ [divideSign] @ '' ''
                @ numberToString (base q) @ '' = '' @ blank
          \<and> answerLine q = numberToString (base q * other q) @ '' '' @ [divideSign] @ '' ''
                @ numberToString (base q) @ '' = '' @ numberToString (other q)
          \<and> (base q \<noteq> 0 \<longrightarrow> (base q * other q) div base q = answer q))"
proof -
  have m: "replaceFirst blank rep
             (numberToString a @ '' '' @ [c] @ '' '' @ numberToString b @ '' = '' @ blank)
           = numberToString a @ '' '' @ [c] @ '' '' @ numberToString b @ '' = '' @ rep"
    if "c \<noteq> CHR ''_''" for a b c rep
  proof -
    have "CHR ''_'' \<notin> set (numberToString a @ '' '' @ [c] @ '' '' @ numberToString b @ '' = '')"
      using that numberToString_no_underscore [of a] numberToString_no_underscore [of b]
      by auto
    from replaceFirst_blank [OF this, of rep] show ?thesis by simp
  qed
  have t: "timesSign \<noteq> CHR ''_''" "divideSign \<noteq> CHR ''_''"
    by (simp_all add: timesSign_def divideSign_def)
  show ?thesis
    using generateQuestion_cases [OF assms] m [OF t(1)] m [OF t(2)]
    by (auto simp: answerLine_def)
qed

theorem question_arithmetic_invariant_witness:
  "generateQuestion [2, 5, 10] False (\<lambda>i. 1 / 4) 0 = Inr (sampleQuestion, 2)
   \<and> qtype sampleQuestion = multiplication
   \<and> answer sampleQuestion = base sampleQuestion * other sampleQuestion
   \<and> answerLine sampleQuestion = ''2 '' @ [timesSign] @ '' 4 = 8''
   \<and> (\<exists>q. generateQuestion [2, 5, 10] True (\<lambda>i. 1 / 4) 0 = Inr (q, 3)
        \<and> qtype q = division \<and> base q \<noteq> 0 \<and> answer q = other q
        \<and> (base q * other q) div base q = answer q
        \<and> answerLine q = ''8 '' @ [divideSign] @ '' 2 = 4'')"
proof -
  have g: "generateQuestion [2, 5, 10] False (\<lambda>i. 1 / 4) 0 = Inr (sampleQuestion, 2)"
    using generateQuestion_sample [of 0] by simp
  have m: "qtype sampleQuestion = multiplication" by (simp add: sampleQuestion_def)
  from question_arithmetic_invariant [OF g] m
  have a: "answer sampleQuestion = base sampleQuestion * other sampleQuestion"
    and "answerLine sampleQuestion
      = numberToString (base sampleQuestion) @ '' '' @ [timesSign] @ '' ''
          @ numberToString (other sampleQuestion) @ '' = ''
          @ numberToString (base sampleQuestion * other sampleQuestion)"
    by simp_all
  hence l: "answerLine sampleQuestion = ''2 '' @ [timesSign] @ '' 4 = 8''"
    by (simp add: sampleQuestion_def numberToString_def digitsOf.simps)
  let ?d = "\<lparr> qtype = division, base = 2, other = 4, productField = Some 8,
              questionText = ''8 '' @ [divideSign] @ '' 2 = ______'', answer = 4 \<rparr>"
  have gd: "generateQuestion [2, 5, 10] True (\<lambda>i. 1 / 4) 0 = Inr (?d, 3)"
    using generateQuestion_sample_division [of 0] by simp
  have d: "qtype ?d = division" "base ?d \<noteq> 0" by simp_all
  from question_arithmetic_invariant [OF gd] d
  have "answer ?d = other ?d \<and> (base ?d * other ?d) div base ?d = answer ?d
      \<and> answerLine ?d = numberToString (base ?d * other ?d) @ '' '' @ [divideSign] @ '' ''
                @ numberToString (base ?d) @ '' = '' @ numberToString (other ?d)"
    by blast
  hence "answer ?d = other ?d \<and> (base ?d * other ?d) div base ?d = answer ?d
      \<and> answerLine ?d = ''8 '' @ [divideSign] @ '' 2 = 4''"
    by (simp add: numberToString_def digitsOf.simps)
  with gd d have "\<exists>q. generateQuestion [2, 5, 10] True (\<lambda>i. 1 / 4) 0 = Inr (q, 3)
        \<and> qtype q = division \<and> base q \<noteq> 0 \<and> answer q = other q
        \<and> (base q * other q) div base q = answer q
        \<and> answerLine q = ''8 '' @ [divideSign] @ '' 2 = 4''"
    by blast
  with g m a l show ?thesis by blast
qed

text \<open>
  C8. For every non-empty list of selected tables and every requested count from 1 to 99,
  \<open>generateWorksheet\<close> without division returns exactly that many questions, each a
  multiplication with its base among the selected tables and its other factor from 1 to
  12, whatever the draws of \<open>Math.random\<close> in \<open>[0, 1)\<close> are.
\<close>

theorem generation_multiplication_only:
  assumes "selectedTables \<noteq> []" "1 \<le> n" "n \<le> 99" "unitInterval rng"
  shows "\<exists>qs k'. generateWorksheet (Some n) selectedTables False rng k currentQuestions
             = Inr (qs, k')
           \<and> int (length qs) = n
           \<and> (\<forall>q \<in> set qs. qtype q = multiplication \<and> base q \<in> set selectedTables
                  \<and> 1 \<le> other q \<and> other q \<le> 12)"
proof -
  have v: "validateInputs (Some n) selectedTables"
    using assms by (simp add: validateInputs_def)
  obtain qs k' where r: "generateLoop selectedTables False rng n 0 k [] = Inr (qs, k')"
      "length qs = length ([] :: Question list) + nat (n - int 0)"
      "\<forall>q \<in> set qs. q \<in> set [] \<or> (qtype q = multiplication
                  \<and> base q \<in> set selectedTables \<and> 1 \<le> other q \<and> other q \<le> 12)"
    using generateLoop_multiplication [OF assms(1) assms(4), of False n 0 k "[]"] by blast
  have "generateWorksheet (Some n) selectedTables False rng k currentQuestions = Inr (qs, k')"
    using v r(1) by (simp add: generateWorksheet_def)
  moreover have "int (length qs) = n" using r(2) assms(2) by simp
  ultimately show ?thesis using r(3) by auto
qed

theorem generation_multiplication_only_witness:
  "[2, 5, 10 :: int] \<noteq> [] \<and> (1 :: int) \<le> 10 \<and> (10 :: int) \<le> 99
   \<and> unitInterval (\<lambda>i. 1 / 4)
   \<and> (\<exists>qs k'. generateWorksheet (Some 10) [2, 5, 10] False (\<lambda>i. 1 / 4) 0 [] = Inr (qs, k')
      \<and> int (length qs) = 10
      \<and> (\<forall>q \<in> set qs. qtype q = multiplication \<and> base q \<in> set [2, 5, 10]
             \<and> 1 \<le> other q \<and> other q \<le> 12))"
proof -
  have h1: "[2, 5, 10 :: int] \<noteq> []" by simp
  have h2: "(1 :: int) \<le> 10" by simp
  have h3: "(10 :: int) \<le> 99" by simp
  have h4: "unitInterval (\<lambda>i. 1 / 4)" by (simp add: unitInterval_def)
  from generation_multiplication_only [OF h1 h2 h3 h4, of 0 "[]"] h1 h2 h3 h4
  show ?thesis by blast
qed

text \<open>
  C10. For a non-empty array and a draw in \<open>[0, 1)\<close> the index that \<open>pickRandom\<close>
  computes lies between 0 and \<open>length - 1\<close>, so the element read exists;
  \<open>randomInt(1, 12)\<close> lies between 1 and 12; and \<open>generateQuestion\<close> on a non-empty
  selection returns a question, never reading outside the array.
\<close>

theorem random_picks_in_range:
  assumes "array \<noteq> []" "0 \<le> r" "r < 1" "selectedTables \<noteq> []" "unitInterval rng"
  shows "0 \<le> pickRandomIndex array r \<and> pickRandomIndex array r \<le> int (length array) - 1
     \<and> pickRandom array r = Some (array ! nat (pickRandomIndex array r))
     \<and> 1 \<le> randomInt 1 12 r \<and> randomInt 1 12 r \<le> 12
     \<and> generateQuestion selectedTables includeDivision rng k \<noteq> Inl UndefinedBase
     \<and> (\<exists>q k'. generateQuestion selectedTables includeDivision rng k = Inr (q, k')
          \<and> base q \<in> set selectedTables \<and> 1 \<le> other q \<and> other q \<le> 12)"
proof -
  obtain q where "generateQuestion selectedTables includeDivision rng k
            = Inr (q, if includeDivision then k + 3 else k + 2)"
      "base q \<in> set selectedTables" "1 \<le> other q" "other q \<le> 12"
    using generateQuestion_total [OF assms(4) assms(5), of includeDivision k] by blast
  hence "generateQuestion selectedTables includeDivision rng k \<noteq> Inl UndefinedBase
     \<and> (\<exists>q k'. generateQuestion selectedTables includeDivision rng k = Inr (q, k')
          \<and> base q \<in> set selectedTables \<and> 1 \<le> other q \<and> other q \<le> 12)"
    by auto
  with pickRandomIndex_range [OF assms(1-3)] pickRandom_Some [OF assms(1-3)]
    randomInt_range [OF assms(2,3)]
  show ?thesis by blast
qed

theorem random_picks_in_range_witness:
  "[2, 5, 10 :: int] \<noteq> [] \<and> (0 :: real) \<le> 3 / 4 \<and> (3 :: real) / 4 < 1
   \<and> unitInterval (\<lambda>i. 3 / 4)
   \<and> pickRandomIndex [2, 5, 10 :: int] (3 / 4) = 2
   \<and> pickRandom [2, 5, 10 :: int] (3 / 4) = Some 10
   \<and> randomInt 1 12 (3 / 4) = 10
   \<and> (\<exists>q k'. generateQuestion [2, 5, 10] True (\<lambda>i. 3 / 4) 0 = Inr (q, k'))"
proof -
  have h1: "[2, 5, 10 :: int] \<noteq> []" by simp
  have h2: "(0 :: real) \<le> 3 / 4" by simp
  have h3: "(3 :: real) / 4 < 1" by simp
  have h4: "unitInterval (\<lambda>i. 3 / 4)" by (simp add: unitInterval_def)
  have i: "pickRandomIndex [2, 5, 10 :: int] (3 / 4) = 2"
    by (simp add: pickRandomIndex_def Math_floor_def)
  have j: "randomInt 1 12 (3 / 4) = 10"
    by (simp add: randomInt_def Math_floor_def)
  note t = random_picks_in_range [OF h1 h2 h3 h1 h4, of True 0]
  from t i have "pickRandom [2, 5, 10 :: int] (3 / 4) = Some 10" by simp
  moreover from t have "\<exists>q k'. generateQuestion [2, 5, 10] True (\<lambda>i. 3 / 4) 0 = Inr (q, k')"
    by blast
  ultimately show ?thesis using h1 h2 h3 h4 i j by blast
qed


section \<open>Facts about the PDF export\<close>

lemma drawLines_paints:
  assumes "drawLines maxY' lineSpacing showAnswers answerValue questionIndex col i columnX
             lineCount lines lineIndex yPosition = (ps, yEnd)"
      and "p \<in> set ps"
  shows "paintQuestion p = questionIndex \<and> paintColumn p = col \<and> paintRow p = i
     \<and> paintX p = columnX \<and> paintText p \<in> set lines"
  using assms
proof (induction lines arbitrary: lineIndex yPosition ps yEnd)
  case Nil
  then show ?case by simp
next
  case (Cons line rest)
  show ?case
  proof (cases "yPosition > maxY' - lineSpacing")
    case True
    with Cons.prems have "drawLines maxY' lineSpacing showAnswers answerValue questionIndex col
        i columnX lineCount rest (lineIndex + 1) yPosition = (ps, yEnd)"
      by simp
    from Cons.IH [OF this Cons.prems(2)] show ?thesis by simp
  next
    case False
    let ?yNext = "if int lineIndex < int lineCount - 1 then yPosition + lineSpacing * 0.6
                  else yPosition"
    obtain ps' yEnd' where d: "drawLines maxY' lineSpacing showAnswers answerValue questionIndex
        col i columnX lineCount rest (lineIndex + 1) ?yNext = (ps', yEnd')"
      by (cases "drawLines maxY' lineSpacing showAnswers answerValue questionIndex
        col i columnX lineCount rest (lineIndex + 1) ?yNext") blast
    with False Cons.prems(1) obtain p0 where p0: "ps = p0 # ps'" "paintQuestion p0 = questionIndex"
      "paintColumn p0 = col" "paintRow p0 = i" "paintX p0 = columnX" "paintText p0 = line"
      by (auto simp: Let_def)
    show ?thesis
    proof (cases "p = p0")
      case True
      with p0 show ?thesis by simp
    next
      case False
      with Cons.prems(2) p0(1) have "p \<in> set ps'" by simp
      from Cons.IH [OF d this] show ?thesis by simp
    qed
  qed
qed

lemma columnLoop_paints:
  assumes "p \<in> set (columnLoop split questions columnWidth maxY' qpc lineSpacing showAnswers
                      col columnX i yPosition)"
  shows "paintColumn p = col \<and> paintX p = columnX
     \<and> paintQuestion p = int col * qpc + int (paintRow p)
     \<and> int (paintRow p) < qpc \<and> paintQuestion p < int (length questions)
     \<and> paintText p \<in> set (split (numberedText showAnswers (questions ! nat (paintQuestion p))
                                 (paintQuestion p)) (columnWidth - 8))"
  using assms
proof (induction split questions columnWidth maxY' qpc lineSpacing showAnswers col columnX i
         yPosition rule: columnLoop.induct)
  case (1 split questions columnWidth maxY' qpc lineSpacing showAnswers col columnX i yPosition)
  let ?qi = "int col * qpc + int i"
  let ?q = "questions ! nat ?qi"
  let ?txt = "numberedText showAnswers ?q ?qi"
  let ?av = "if showAnswers then numberToString (answer ?q) else []"
  let ?lines = "split ?txt (columnWidth - 8)"
  have c: "int i < qpc" "\<not> ?qi \<ge> int (length questions)" "\<not> yPosition > maxY' - lineSpacing"
    using "1.prems" by (subst (asm) columnLoop.simps, simp split: if_splits add: Let_def)+
  obtain ps yEnd where d: "drawLines maxY' lineSpacing showAnswers ?av ?qi col i columnX
        (length ?lines) ?lines 0 yPosition = (ps, yEnd)"
    by (cases "drawLines maxY' lineSpacing showAnswers ?av ?qi col i columnX
        (length ?lines) ?lines 0 yPosition") blast
  have "p \<in> set ps \<or> p \<in> set (columnLoop split questions columnWidth maxY' qpc lineSpacing
           showAnswers col columnX (i + 1) (yEnd + lineSpacing))"
    using "1.prems" c d by (subst (asm) columnLoop.simps) (simp add: Let_def)
  then show ?case
  proof
    assume "p \<in> set ps"
    from drawLines_paints [OF d this] c show ?thesis by simp
  next
    assume "p \<in> set (columnLoop split questions columnWidth maxY' qpc lineSpacing
           showAnswers col columnX (i + 1) (yEnd + lineSpacing))"
    from "1.IH" [OF c(1) refl c(2) c(3) refl refl refl refl refl d [symmetric] refl this]
    show ?thesis .
  qed
qed

lemma pageLoop_paints:
  assumes "p \<in> set (pageLoop split questions layoutCols margin' columnWidth columnGap startY'
                      maxY' qpc lineSpacing showAnswers col)"
  shows "int (paintColumn p) < layoutCols
     \<and> paintX p = margin' + real (paintColumn p) * (columnWidth + columnGap)
     \<and> paintQuestion p = int (paintColumn p) * qpc + int (paintRow p)
     \<and> int (paintRow p) < qpc \<and> paintQuestion p < int (length questions)
     \<and> paintText p \<in> set (split (numberedText showAnswers (questions ! nat (paintQuestion p))
                                 (paintQuestion p)) (columnWidth - 8))"
  using assms
proof (induction split questions layoutCols margin' columnWidth columnGap startY' maxY' qpc
         lineSpacing showAnswers col rule: pageLoop.induct)
  case (1 split questions layoutCols margin' columnWidth columnGap startY' maxY' qpc lineSpacing
          showAnswers col)
  have c: "int col < layoutCols"
    using "1.prems" by (subst (asm) pageLoop.simps) (simp split: if_splits)
  let ?x = "margin' + real col * (columnWidth + columnGap)"
  have "p \<in> set (columnLoop split questions columnWidth maxY' qpc lineSpacing showAnswers col
                   ?x 0 startY')
      \<or> p \<in> set (pageLoop split questions layoutCols margin' columnWidth columnGap startY'
                   maxY' qpc lineSpacing showAnswers (col + 1))"
    using "1.prems" c by (subst (asm) pageLoop.simps) (simp add: Let_def)
  then show ?case
  proof
    assume "p \<in> set (columnLoop split questions columnWidth maxY' qpc lineSpacing showAnswers
                       col ?x 0 startY')"
    from columnLoop_paints [OF this] c show ?thesis by auto
  next
    assume "p \<in> set (pageLoop split questions layoutCols margin' columnWidth columnGap startY'
                   maxY' qpc lineSpacing showAnswers (col + 1))"
    from "1.IH" [OF c refl this] show ?thesis .
  qed
qed

lemma column_major:
  assumes "q = int c * qpc + int r" "int r < qpc"
  shows "int c = q div qpc \<and> int r = q mod qpc"
proof -
  have pos: "0 < qpc" using assms(2) by linarith
  have "q div qpc = int c"
    using assms pos by (simp add: div_pos_pos_trivial)
  moreover have "q mod qpc = int r"
    using assms pos by (simp add: mod_pos_pos_trivial)
  ultimately show ?thesis by simp
qed

text \<open>When no text wraps, a row that does not overflow paints one line and moves on.\<close>

lemma drawLines_single:
  assumes "\<not> yPosition > maxY' - lineSpacing"
  shows "\<exists>p. drawLines maxY' lineSpacing showAnswers answerValue questionIndex col i columnX
             1 [line] 0 yPosition = ([p], yPosition)
           \<and> paintPlace p = (questionIndex, col, i, 0, columnX, yPosition)"
  using assms by (simp add: paintPlace_def)

lemma columnLoop_step:
  assumes "int i < qpc" "\<not> int col * qpc + int i \<ge> int (length questions)"
      "\<not> yPosition > maxY' - lineSpacing" "\<forall>t w. length (split t w) = 1"
  shows "\<exists>p. columnLoop split questions columnWidth maxY' qpc lineSpacing showAnswers col
               columnX i yPosition
             = p # columnLoop split questions columnWidth maxY' qpc lineSpacing showAnswers col
                     columnX (i + 1) (yPosition + lineSpacing)
           \<and> paintPlace p = (int col * qpc + int i, col, i, 0, columnX, yPosition)"
proof -
  let ?qi = "int col * qpc + int i"
  let ?q = "questions ! nat ?qi"
  let ?lines = "split (numberedText showAnswers ?q ?qi) (columnWidth - 8)"
  let ?av = "if showAnswers then numberToString (answer ?q) else []"
  have "length ?lines = 1" using assms(4) by blast
  then obtain l where l: "?lines = [l]" by (cases ?lines) auto
  obtain p where p: "drawLines maxY' lineSpacing showAnswers ?av ?qi col i columnX 1 [l] 0
      yPosition = ([p], yPosition)" "paintPlace p = (?qi, col, i, 0, columnX, yPosition)"
    using drawLines_single [OF assms(3)] by blast
  have "columnLoop split questions columnWidth maxY' qpc lineSpacing showAnswers col
               columnX i yPosition
             = p # columnLoop split questions columnWidth maxY' qpc lineSpacing showAnswers col
                     columnX (i + 1) (yPosition + lineSpacing)"
    using assms(1-3) l p(1) by (subst columnLoop.simps) (simp add: Let_def)
  with p(2) show ?thesis by blast
qed

lemma columnLoop_stop:
  assumes "\<not> (int i < qpc \<and> \<not> int col * qpc + int i \<ge> int (length questions)
      \<and> \<not> yPosition > maxY' - lineSpacing)"
  shows "columnLoop split questions columnWidth maxY' qpc lineSpacing showAnswers col
               columnX i yPosition = []"
  using assms by (subst columnLoop.simps) (auto simp: Let_def)

lemma columnLoop_nowrap:
  assumes "\<forall>t w. length (split t w) = 1"
  shows "map paintPlace (columnLoop split questions columnWidth maxY' qpc lineSpacing showAnswers
                           col columnX i yPosition)
       = map paintPlace (columnLoop split questions columnWidth maxY' qpc lineSpacing False
                           col columnX i yPosition)
     \<and> (\<forall>p \<in> set (columnLoop split questions columnWidth maxY' qpc lineSpacing showAnswers
                           col columnX i yPosition).
          paintLine p = 0 \<and> i \<le> paintRow p
        \<and> paintY p = yPosition + real (paintRow p - i) * lineSpacing)"
  using assms
proof (induction "nat (qpc - int i)" arbitrary: i yPosition)
  case 0
  hence "\<not> int i < qpc" by simp
  then show ?case by (simp add: columnLoop_stop)
next
  case (Suc k)
  show ?case
  proof (cases "int i < qpc \<and> \<not> int col * qpc + int i \<ge> int (length questions)
      \<and> \<not> yPosition > maxY' - lineSpacing")
    case False
    then show ?thesis by (simp add: columnLoop_stop)
  next
    case True
    hence c: "int i < qpc" "\<not> int col * qpc + int i \<ge> int (length questions)"
      "\<not> yPosition > maxY' - lineSpacing"
      by simp_all
    obtain p where p: "columnLoop split questions columnWidth maxY' qpc lineSpacing showAnswers
        col columnX i yPosition
      = p # columnLoop split questions columnWidth maxY' qpc lineSpacing showAnswers col
              columnX (i + 1) (yPosition + lineSpacing)"
      "paintPlace p = (int col * qpc + int i, col, i, 0, columnX, yPosition)"
      using columnLoop_step [OF c Suc.prems] by blast
    obtain p' where p': "columnLoop split questions columnWidth maxY' qpc lineSpacing False
        col columnX i yPosition
      = p' # columnLoop split questions columnWidth maxY' qpc lineSpacing False col
              columnX (i + 1) (yPosition + lineSpacing)"
      "paintPlace p' = (int col * qpc + int i, col, i, 0, columnX, yPosition)"
      using columnLoop_step [OF c Suc.prems] by blast
    have k: "k = nat (qpc - int (i + 1))" using Suc.hyps(2) by simp
    note ih = Suc.hyps(1) [OF k Suc.prems, of "yPosition + lineSpacing"]
    have "paintLine p = 0 \<and> i \<le> paintRow p
        \<and> paintY p = yPosition + real (paintRow p - i) * lineSpacing"
      using p(2) by (simp add: paintPlace_def)
    moreover have "paintLine x = 0 \<and> i \<le> paintRow x
        \<and> paintY x = yPosition + real (paintRow x - i) * lineSpacing"
      if "x \<in> set (columnLoop split questions columnWidth maxY' qpc lineSpacing showAnswers col
              columnX (i + 1) (yPosition + lineSpacing))" for x
    proof -
      from ih that have x: "paintLine x = 0" "i + 1 \<le> paintRow x"
        "paintY x = yPosition + lineSpacing + real (paintRow x - (i + 1)) * lineSpacing"
        by auto
      have "real (paintRow x - i) = real (paintRow x - (i + 1)) + 1"
        using x(2) by simp
      with x show ?thesis by (simp add: algebra_simps)
    qed
    ultimately show ?thesis using p p' ih by auto
  qed
qed

lemma pageLoop_nowrap:
  assumes "\<forall>t w. length (split t w) = 1"
  shows "map paintPlace (pageLoop split questions layoutCols margin' columnWidth columnGap startY'
                           maxY' qpc lineSpacing showAnswers col)
       = map paintPlace (pageLoop split questions layoutCols margin' columnWidth columnGap startY'
                           maxY' qpc lineSpacing False col)
     \<and> (\<forall>p \<in> set (pageLoop split questions layoutCols margin' columnWidth columnGap startY'
                           maxY' qpc lineSpacing showAnswers col).
          paintLine p = 0 \<and> paintY p = startY' + real (paintRow p) * lineSpacing)"
proof (induction "nat (layoutCols - int col)" arbitrary: col)
  case 0
  hence "\<not> int col < layoutCols" by simp
  then show ?case by (subst (1 2 3) pageLoop.simps) simp
next
  case (Suc k)
  hence c: "int col < layoutCols" by simp
  have k: "k = nat (layoutCols - int (col + 1))" using Suc.hyps(2) by simp
  note ih = Suc.hyps(1) [OF k]
  let ?x = "margin' + real col * (columnWidth + columnGap)"
  note cl = columnLoop_nowrap [OF assms, of questions columnWidth maxY' qpc lineSpacing _ col ?x 0
      startY']
  have u: "pageLoop split questions layoutCols margin' columnWidth columnGap startY'
                           maxY' qpc lineSpacing sa col
      = columnLoop split questions columnWidth maxY' qpc lineSpacing sa col ?x 0 startY'
        @ pageLoop split questions layoutCols margin' columnWidth columnGap startY'
                           maxY' qpc lineSpacing sa (col + 1)" for sa
    using c by (subst pageLoop.simps) (simp add: Let_def)
  show ?case unfolding u using ih cl by auto
qed

text \<open>The layout and the pages for three questions.\<close>

lemma layout_three:
  "columns (calculateOptimalLayout 3) = 1 \<and> lineHeight (calculateOptimalLayout 3) = 807 / 10"
  by (simp add: calculateOptimalLayout_def finalLineHeight_def rawLineHeight_def usableHeight_eq
      questionsPerColumn_def layoutColumns_def Math_ceil_def Math_round_def)

lemma three_questions_painted:
  "map (\<lambda>page. map paintQuestion (pagePaints page))
     (downloadWorksheetPdf a4NoWrap [sampleQuestion, sampleQuestion, sampleQuestion])
   = [[0, 1], [0, 1]]"
  by (simp add: downloadWorksheetPdf_def layout_three renderPdfPage_def a4NoWrap_def Math_ceil_def
      Let_def pageLoop.simps columnLoop.simps)

lemma three_questions_places:
  "map (\<lambda>page. map paintPlace (pagePaints page))
     (downloadWorksheetPdf a4NoWrap [sampleQuestion, sampleQuestion, sampleQuestion])
   = [[(0, 0, 0, 0, 15, 40), (1, 0, 1, 0, 15, 1207 / 10)],
      [(0, 0, 0, 0, 15, 40), (1, 0, 1, 0, 15, 1207 / 10)]]"
  by (simp add: downloadWorksheetPdf_def layout_three renderPdfPage_def a4NoWrap_def Math_ceil_def
      Let_def pageLoop.simps columnLoop.simps paintPlace_def)

lemma three_questions_overflow:
  assumes "length questions = 3" "\<forall>t w. length (splitTextToSize doc t w) = 1"
      "297 \<le> docPageHeight doc" "docPageHeight doc < 297.1"
  shows "map (\<lambda>page. map paintQuestion (pagePaints page)) (downloadWorksheetPdf doc questions)
       = [[0, 1], [0, 1]]"
proof -
  let ?w = "docPageWidth doc - 30"
  let ?m = "docPageHeight doc - 15"
  have col: "map paintQuestion (columnLoop (splitTextToSize doc) questions ?w ?m 3 (807 / 10) sa
      0 15 0 40) = [0, 1]" for sa
  proof -
    have l: "int (length questions) = 3" using assms(1) by simp
    obtain p0 where p0: "columnLoop (splitTextToSize doc) questions ?w ?m 3 (807 / 10) sa 0 15 0 40
        = p0 # columnLoop (splitTextToSize doc) questions ?w ?m 3 (807 / 10) sa 0 15 (0 + 1)
            (40 + 807 / 10)"
      "paintPlace p0 = (int 0 * 3 + int 0, 0, 0, 0, 15, 40)"
      using columnLoop_step [where i = 0 and qpc = 3 and col = 0 and questions = questions
          and yPosition = 40 and maxY' = ?m and lineSpacing = "807 / 10"
          and split = "splitTextToSize doc" and columnWidth = ?w and showAnswers = sa
          and columnX = 15] assms l
      by auto
    obtain p1 where p1: "columnLoop (splitTextToSize doc) questions ?w ?m 3 (807 / 10) sa 0 15 1
          (40 + 807 / 10)
        = p1 # columnLoop (splitTextToSize doc) questions ?w ?m 3 (807 / 10) sa 0 15 (1 + 1)
            (40 + 807 / 10 + 807 / 10)"
      "paintPlace p1 = (int 0 * 3 + int 1, 0, 1, 0, 15, 40 + 807 / 10)"
      using columnLoop_step [where i = 1 and qpc = 3 and col = 0 and questions = questions
          and yPosition = "40 + 807 / 10" and maxY' = ?m and lineSpacing = "807 / 10"
          and split = "splitTextToSize doc" and columnWidth = ?w and showAnswers = sa
          and columnX = 15] assms l
      by auto
    have "columnLoop (splitTextToSize doc) questions ?w ?m 3 (807 / 10) sa 0 15 (1 + 1)
            (40 + 807 / 10 + 807 / 10) = []"
      using assms(4) by (intro columnLoop_stop) simp
    with p0 p1 show ?thesis by (simp add: paintPlace_def)
  qed
  have pg: "map paintQuestion (pageLoop (splitTextToSize doc) questions 1 15 ?w 5 40 ?m 3
      (807 / 10) sa 0) = [0, 1]" for sa
    using col [of sa] by (simp add: pageLoop.simps)
  show ?thesis
    using assms(1) pg
    by (simp add: downloadWorksheetPdf_def layout_three renderPdfPage_def Math_ceil_def Let_def)
qed

text \<open>
  C4. The claim is that \<open>questionsPerColumn\<close> rows of the line height returned fit in
  the usable height, so that the renderer never takes its overflow \<open>break\<close> and paints
  every question. With three questions the line height \<open>242 / 3\<close> is rounded up to 80.7,
  three rows need 242.1 of the 242 available, and on both pages the third row meets
  \<open>yPosition > maxY - lineSpacing\<close>: only the questions 0 and 1 are painted.
\<close>

theorem pdf_third_question_not_painted:
  "length [sampleQuestion, sampleQuestion, sampleQuestion] = 3
   \<and> questionsPerColumn 3 = 3
   \<and> lineHeight (calculateOptimalLayout 3) = 80.7
   \<and> real_of_int (questionsPerColumn 3) * lineHeight (calculateOptimalLayout 3) > usableHeight
   \<and> map (\<lambda>page. map paintQuestion (pagePaints page))
         (downloadWorksheetPdf a4NoWrap [sampleQuestion, sampleQuestion, sampleQuestion])
       = [[0, 1], [0, 1]]"
proof -
  have "questionsPerColumn 3 = 3"
    by (simp add: questionsPerColumn_def layoutColumns_def Math_ceil_def)
  with layout_three three_questions_painted show ?thesis
    by (simp add: usableHeight_eq)
qed

text \<open>
  What holds of every worksheet of 1 to 99 questions: \<open>downloadWorksheetPdf\<close> makes two
  pages, the first titled as the worksheet, the second as the answer key, both with the
  font size of the layout and painted from the same columns, column width, start, line
  spacing and rows per column. On either page a line that is painted for the question
  \<open>i\<close> is in column \<open>i div questionsPerColumn\<close> and row \<open>i mod questionsPerColumn\<close>,
  at the left edge of that column, and is a line of the wrapped text of that question. When
  no text wraps, the answers page paints the same places as the blanks page and row \<open>r\<close>
  is painted at \<open>40 + r * lineHeight\<close>. Nothing here says that a question is painted.
\<close>

lemma painted_lines_column_major:
  fixes doc :: PdfDoc and questions :: "Question list"
  defines "L \<equiv> calculateOptimalLayout (int (length questions))"
  defines "qpc \<equiv> questionsPerColumn (int (length questions))"
  defines "columnWidth \<equiv> (docPageWidth doc - 30 - (real_of_int (columns L) - 1) * 5)
                           / real_of_int (columns L)"
  defines "pages \<equiv> downloadWorksheetPdf doc questions"
  assumes "1 \<le> length questions" "length questions \<le> 99"
  shows "length pages = 2
     \<and> pageTitle (pages ! 0) = ''Timestable worksheet''
     \<and> pageTitle (pages ! 1) = ''Timestable worksheet - Answer key''
     \<and> pageFontSize (pages ! 0) = fontSize L \<and> pageFontSize (pages ! 1) = fontSize L
     \<and> (\<forall>p \<in> set (pagePaints (pages ! 0)) \<union> set (pagePaints (pages ! 1)).
           0 \<le> paintQuestion p \<and> paintQuestion p < int (length questions)
         \<and> int (paintColumn p) = paintQuestion p div qpc
         \<and> int (paintRow p) = paintQuestion p mod qpc
         \<and> int (paintColumn p) < columns L
         \<and> paintX p = 15 + real (paintColumn p) * (columnWidth + 5))
     \<and> (\<forall>p \<in> set (pagePaints (pages ! 0)).
           paintText p \<in> set (splitTextToSize doc
             (numberedText False (questions ! nat (paintQuestion p)) (paintQuestion p))
             (columnWidth - 8)))
     \<and> (\<forall>p \<in> set (pagePaints (pages ! 1)).
           paintText p \<in> set (splitTextToSize doc
             (numberedText True (questions ! nat (paintQuestion p)) (paintQuestion p))
             (columnWidth - 8)))
     \<and> ((\<forall>t w. length (splitTextToSize doc t w) = 1) \<longrightarrow>
           map paintPlace (pagePaints (pages ! 1)) = map paintPlace (pagePaints (pages ! 0))
         \<and> (\<forall>p \<in> set (pagePaints (pages ! 0)).
               paintY p = 40 + real (paintRow p) * lineHeight L))"
proof -
  let ?paints = "\<lambda>sa. pageLoop (splitTextToSize doc) questions (columns L) 15 columnWidth 5 40
      (docPageHeight doc - 15) qpc (lineHeight L) sa 0"
  have q: "Math_ceil (real (length questions) / real_of_int (columns L)) = qpc"
    by (simp add: qpc_def L_def questionsPerColumn_def calculateOptimalLayout_def)
  have pg: "pages = [renderPdfPage doc questions L (docPageWidth doc) (docPageHeight doc) 15
       columnWidth 5 40 (docPageHeight doc - 15) qpc (lineHeight L) False,
     renderPdfPage doc questions L (docPageWidth doc) (docPageHeight doc) 15
       columnWidth 5 40 (docPageHeight doc - 15) qpc (lineHeight L) True]"
    unfolding pages_def downloadWorksheetPdf_def Let_def L_def [symmetric] q columnWidth_def
    by simp
  have p0: "pagePaints (pages ! 0) = ?paints False"
    and p1: "pagePaints (pages ! 1) = ?paints True"
    by (simp_all add: pg renderPdfPage_def)
  have place: "0 \<le> paintQuestion p \<and> paintQuestion p < int (length questions)
         \<and> int (paintColumn p) = paintQuestion p div qpc
         \<and> int (paintRow p) = paintQuestion p mod qpc
         \<and> int (paintColumn p) < columns L
         \<and> paintX p = 15 + real (paintColumn p) * (columnWidth + 5)
         \<and> paintText p \<in> set (splitTextToSize doc
             (numberedText sa (questions ! nat (paintQuestion p)) (paintQuestion p))
             (columnWidth - 8))"
    if "p \<in> set (?paints sa)" for p sa
  proof -
    note f = pageLoop_paints [OF that]
    hence e: "paintQuestion p = int (paintColumn p) * qpc + int (paintRow p)"
      and r: "int (paintRow p) < qpc"
      by simp_all
    have "0 \<le> int (paintColumn p) * qpc" using r by simp
    hence "0 \<le> paintQuestion p" using e by linarith
    with f column_major [OF e r] show ?thesis by simp
  qed
  have nw: "map paintPlace (?paints True) = map paintPlace (?paints False)
      \<and> (\<forall>p \<in> set (?paints False). paintY p = 40 + real (paintRow p) * lineHeight L)"
    if "\<forall>t w. length (splitTextToSize doc t w) = 1"
    using pageLoop_nowrap [OF that, of questions "columns L" 15 columnWidth 5 40
        "docPageHeight doc - 15" qpc "lineHeight L" True 0]
      pageLoop_nowrap [OF that, of questions "columns L" 15 columnWidth 5 40
        "docPageHeight doc - 15" qpc "lineHeight L" False 0]
    by simp
  have t: "length pages = 2
     \<and> pageTitle (pages ! 0) = ''Timestable worksheet''
     \<and> pageTitle (pages ! 1) = ''Timestable worksheet - Answer key''
     \<and> pageFontSize (pages ! 0) = fontSize L \<and> pageFontSize (pages ! 1) = fontSize L"
    by (simp add: pg renderPdfPage_def)
  show ?thesis unfolding p0 p1 using t place nw by blast
qed

lemma painted_lines_column_major_sample:
  "(\<forall>t w. length (splitTextToSize a4NoWrap t w) = 1)
   \<and> 1 \<le> length [sampleQuestion, sampleQuestion, sampleQuestion]
   \<and> length [sampleQuestion, sampleQuestion, sampleQuestion] \<le> 99
   \<and> length (downloadWorksheetPdf a4NoWrap [sampleQuestion, sampleQuestion, sampleQuestion]) = 2
   \<and> map paintPlace (pagePaints (downloadWorksheetPdf a4NoWrap
        [sampleQuestion, sampleQuestion, sampleQuestion] ! 0))
     = [(0, 0, 0, 0, 15, 40), (1, 0, 1, 0, 15, 40 + 1 * 80.7)]
   \<and> map paintPlace (pagePaints (downloadWorksheetPdf a4NoWrap
        [sampleQuestion, sampleQuestion, sampleQuestion] ! 1))
     = map paintPlace (pagePaints (downloadWorksheetPdf a4NoWrap
        [sampleQuestion, sampleQuestion, sampleQuestion] ! 0))
   \<and> (0 :: int) = 1 div questionsPerColumn 3 \<and> (1 :: int) = 1 mod questionsPerColumn 3"
proof -
  let ?qs = "[sampleQuestion, sampleQuestion, sampleQuestion]"
  let ?pages = "downloadWorksheetPdf a4NoWrap ?qs"
  have h: "\<forall>t w. length (splitTextToSize a4NoWrap t w) = 1"
    by (simp add: a4NoWrap_def)
  have n: "int (length ?qs) = 3" by simp
  have l1: "1 \<le> length ?qs" and l2: "length ?qs \<le> 99"
    by simp_all
  note t = painted_lines_column_major [of ?qs a4NoWrap, OF l1 l2, unfolded n]
  have len: "length ?pages = 2" using t by blast
  have same: "map paintPlace (pagePaints (?pages ! 1)) = map paintPlace (pagePaints (?pages ! 0))"
    using t h by blast
  have pl: "map paintPlace (pagePaints (?pages ! 0))
      = [(0, 0, 0, 0, 15, 40), (1, 0, 1, 0, 15, 40 + 1 * 80.7)]"
    using nth_map [of 0 ?pages "\<lambda>page. map paintPlace (pagePaints page)"] len
      three_questions_places
    by simp
  then obtain p0 p1 where ps: "pagePaints (?pages ! 0) = [p0, p1]"
      "paintPlace p1 = (1, 0, 1, 0, 15, 40 + 1 * 80.7)"
    by auto
  hence "p1 \<in> set (pagePaints (?pages ! 0)) \<union> set (pagePaints (?pages ! 1))" by simp
  with t have "int (paintColumn p1) = paintQuestion p1 div questionsPerColumn 3
      \<and> int (paintRow p1) = paintQuestion p1 mod questionsPerColumn 3"
    by blast
  with ps(2) have "(0 :: int) = 1 div questionsPerColumn 3 \<and> (1 :: int) = 1 mod questionsPerColumn 3"
    by (simp add: paintPlace_def)
  with h l1 l2 len pl same show ?thesis by blast
qed

text \<open>
  The texts of a generated question on the two pages: its number, then the question with
  the blank on the first page and with the answer in place of the blank on the second.
\<close>

lemma generated_text_shape:
  assumes "generateQuestion selectedTables includeDivision rng k = Inr (q, k')"
  shows "\<exists>pre. questionText q = pre @ blank \<and> CHR ''_'' \<notin> set pre"
proof -
  have t: "timesSign \<noteq> CHR ''_''" "divideSign \<noteq> CHR ''_''"
    by (simp_all add: timesSign_def divideSign_def)
  have n: "CHR ''_'' \<notin> set (numberToString a @ '' '' @ [c] @ '' '' @ numberToString b @ '' = '')"
    if "c \<noteq> CHR ''_''" for a b c
    using that numberToString_no_underscore [of a] numberToString_no_underscore [of b]
    by auto
  from generateQuestion_cases [OF assms] show ?thesis
  proof
    assume m: "qtype q = multiplication \<and> productField q = None
          \<and> questionText q = numberToString (base q) @ '' '' @ [timesSign] @ '' ''
                @ numberToString (other q) @ '' = '' @ blank
          \<and> answer q = base q * other q"
    hence "questionText q = (numberToString (base q) @ '' '' @ [timesSign] @ '' ''
                @ numberToString (other q) @ '' = '') @ blank"
      by simp
    with n [OF t(1)] show ?thesis by blast
  next
    assume d: "qtype q = division \<and> includeDivision \<and> productField q = Some (base q * other q)
          \<and> questionText q = numberToString (base q * other q) @ '' '' @ [divideSign] @ '' ''
                @ numberToString (base q) @ '' = '' @ blank
          \<and> answer q = other q"
    hence "questionText q = (numberToString (base q * other q) @ '' '' @ [divideSign] @ '' ''
                @ numberToString (base q) @ '' = '') @ blank"
      by simp
    with n [OF t(2)] show ?thesis by blast
  qed
qed

lemma numberedText_generated:
  assumes "generateQuestion selectedTables includeDivision rng k = Inr (q, k')"
  shows "numberedText False q i
           = numberToString (i + 1) @ '')'' @ (if i + 1 \<ge> 10 then ''  '' else '' '')
               @ questionText q
     \<and> numberedText True q i
           = numberToString (i + 1) @ '')'' @ (if i + 1 \<ge> 10 then ''  '' else '' '')
               @ answerLine q"
proof -
  obtain pre where p: "questionText q = pre @ blank" "CHR ''_'' \<notin> set pre"
    using generated_text_shape [OF assms] by blast
  have "replaceFirst blank [] (questionText q) @ numberToString (answer q) = answerLine q"
    using p replaceFirst_blank [OF p(2)] by (simp add: answerLine_def)
  thus ?thesis by (simp add: numberedText_def Let_def)
qed

text \<open>
  Which questions are painted when no text wraps: in a column, the rows from the top as
  long as \<open>yPosition\<close> is not above \<open>maxY - lineSpacing\<close>. So the question \<open>q\<close> is
  on a page exactly when its row still passes that check.
\<close>

lemma columnLoop_rows_nowrap:
  assumes "\<forall>t w. length (split t w) = 1" "0 \<le> lineSpacing"
  shows "paintRow ` set (columnLoop split questions columnWidth maxY' qpc lineSpacing showAnswers
                           col columnX i yPosition)
       = {r. i \<le> r \<and> int r < qpc \<and> int col * qpc + int r < int (length questions)
             \<and> yPosition + real (r - i) * lineSpacing \<le> maxY' - lineSpacing}"
  using assms
proof (induction "nat (qpc - int i)" arbitrary: i yPosition)
  case 0
  hence "\<not> int i < qpc" by simp
  then show ?case by (auto simp: columnLoop_stop)
next
  case (Suc k)
  show ?case
  proof (cases "int i < qpc \<and> \<not> int col * qpc + int i \<ge> int (length questions)
      \<and> \<not> yPosition > maxY' - lineSpacing")
    case False
    have "\<not> (i \<le> r \<and> int r < qpc \<and> int col * qpc + int r < int (length questions)
             \<and> yPosition + real (r - i) * lineSpacing \<le> maxY' - lineSpacing)" for r
    proof
      assume a: "i \<le> r \<and> int r < qpc \<and> int col * qpc + int r < int (length questions)
             \<and> yPosition + real (r - i) * lineSpacing \<le> maxY' - lineSpacing"
      have "0 \<le> real (r - i) * lineSpacing" using Suc.prems(2) by simp
      with a have "int i < qpc" "int col * qpc + int i < int (length questions)"
        "yPosition \<le> maxY' - lineSpacing"
        by auto
      with False show False by auto
    qed
    with False show ?thesis by (simp add: columnLoop_stop)
  next
    case True
    hence c: "int i < qpc" "\<not> int col * qpc + int i \<ge> int (length questions)"
      "\<not> yPosition > maxY' - lineSpacing"
      by simp_all
    obtain p where p: "columnLoop split questions columnWidth maxY' qpc lineSpacing showAnswers
        col columnX i yPosition
      = p # columnLoop split questions columnWidth maxY' qpc lineSpacing showAnswers col
              columnX (i + 1) (yPosition + lineSpacing)"
      "paintPlace p = (int col * qpc + int i, col, i, 0, columnX, yPosition)"
      using columnLoop_step [OF c Suc.prems(1)] by blast
    have k: "k = nat (qpc - int (i + 1))" using Suc.hyps(2) by simp
    note ih = Suc.hyps(1) [OF k Suc.prems, of "yPosition + lineSpacing"]
    have row: "paintRow p = i" using p(2) by (simp add: paintPlace_def)
    have e: "(i + 1 \<le> r \<and> yPosition + lineSpacing + real (r - (i + 1)) * lineSpacing
                \<le> maxY' - lineSpacing)
           = (i + 1 \<le> r \<and> yPosition + real (r - i) * lineSpacing \<le> maxY' - lineSpacing)" for r
    proof (cases "i + 1 \<le> r")
      case True
      hence "real (r - i) = real (r - (i + 1)) + 1" by simp
      thus ?thesis by (simp add: algebra_simps)
    next
      case False
      then show ?thesis by simp
    qed
    have "paintRow ` set (columnLoop split questions columnWidth maxY' qpc lineSpacing showAnswers
                           col columnX i yPosition)
        = insert i {r. i + 1 \<le> r \<and> int r < qpc
             \<and> int col * qpc + int r < int (length questions)
             \<and> yPosition + real (r - i) * lineSpacing \<le> maxY' - lineSpacing}"
      unfolding p(1) using ih row e by auto
    also have "\<dots> = {r. i \<le> r \<and> int r < qpc \<and> int col * qpc + int r < int (length questions)
             \<and> yPosition + real (r - i) * lineSpacing \<le> maxY' - lineSpacing}"
      using c by (auto simp: le_Suc_eq)
    finally show ?thesis .
  qed
qed


lemma columnLoop_questions_nowrap:
  assumes "\<forall>t w. length (split t w) = 1" "0 \<le> lineSpacing"
  shows "paintQuestion ` set (columnLoop split questions columnWidth maxY' qpc lineSpacing
                                showAnswers col columnX 0 yPosition)
       = {q. \<exists>r. int r < qpc \<and> q = int col * qpc + int r \<and> q < int (length questions)
               \<and> yPosition + real r * lineSpacing \<le> maxY' - lineSpacing}"
    (is "?lhs = ?rhs")
proof -
  let ?ps = "set (columnLoop split questions columnWidth maxY' qpc lineSpacing
                    showAnswers col columnX 0 yPosition)"
  have rows: "paintRow ` ?ps
      = {r. int r < qpc \<and> int col * qpc + int r < int (length questions)
            \<and> yPosition + real r * lineSpacing \<le> maxY' - lineSpacing}"
    using columnLoop_rows_nowrap [OF assms, of questions columnWidth maxY' qpc showAnswers col
        columnX 0 yPosition]
    by simp
  have q: "paintQuestion p = int col * qpc + int (paintRow p)" if "p \<in> ?ps" for p
    using columnLoop_paints [OF that] by simp
  have "?lhs = (\<lambda>r. int col * qpc + int r) ` (paintRow ` ?ps)"
    using q by (auto simp: image_iff)
  also have "\<dots> = ?rhs" unfolding rows by auto
  finally show ?thesis .
qed

lemma pageLoop_questions_nowrap:
  assumes "\<forall>t w. length (split t w) = 1" "0 \<le> lineSpacing"
  shows "paintQuestion ` set (pageLoop split questions layoutCols margin' columnWidth columnGap
                                startY' maxY' qpc lineSpacing showAnswers col)
       = {q. \<exists>c r. col \<le> c \<and> int c < layoutCols \<and> int r < qpc \<and> q = int c * qpc + int r
               \<and> q < int (length questions)
               \<and> startY' + real r * lineSpacing \<le> maxY' - lineSpacing}"
proof (induction "nat (layoutCols - int col)" arbitrary: col)
  case 0
  hence "\<not> int col < layoutCols" by simp
  then show ?case by (subst pageLoop.simps) auto
next
  case (Suc k)
  hence c: "int col < layoutCols" by simp
  have k: "k = nat (layoutCols - int (col + 1))" using Suc.hyps(2) by simp
  note ih = Suc.hyps(1) [OF k]
  let ?x = "margin' + real col * (columnWidth + columnGap)"
  note cl = columnLoop_questions_nowrap [OF assms, of questions columnWidth maxY' qpc
      showAnswers col ?x startY']
  have u: "pageLoop split questions layoutCols margin' columnWidth columnGap startY'
                           maxY' qpc lineSpacing showAnswers col
      = columnLoop split questions columnWidth maxY' qpc lineSpacing showAnswers col ?x 0 startY'
        @ pageLoop split questions layoutCols margin' columnWidth columnGap startY'
                           maxY' qpc lineSpacing showAnswers (col + 1)"
    using c by (subst pageLoop.simps) (simp add: Let_def)
  have s: "(col \<le> d) = (d = col \<or> col + 1 \<le> d)" for d by auto
  show ?case
    unfolding u set_append image_Un cl ih
    using c by (auto simp: s)
qed

lemma layout_rows_cover:
  assumes "1 \<le> n"
  shows "0 < questionsPerColumn n \<and> n \<le> layoutColumns n * questionsPerColumn n"
proof -
  have p: "0 < layoutColumns n" by (rule layoutColumns_pos)
  have "real_of_int n / real_of_int (layoutColumns n) \<le> real_of_int (questionsPerColumn n)"
    unfolding questionsPerColumn_def Math_ceil_def by linarith
  hence "real_of_int n \<le> real_of_int (questionsPerColumn n) * real_of_int (layoutColumns n)"
    using p by (simp add: field_simps)
  hence "n \<le> questionsPerColumn n * layoutColumns n"
    by (metis of_int_le_iff of_int_mult)
  with questionsPerColumn_pos [OF assms] show ?thesis by (simp add: mult.commute)
qed

lemma lineHeight_nonneg:
  assumes "1 \<le> n" "n \<le> 99"
  shows "0 \<le> lineHeight (calculateOptimalLayout n)"
proof -
  have "0 \<le> finalLineHeight n * 10"
    using rawLineHeight_ge [OF assms] finalLineHeight_ge [of n] by simp
  hence "Math_round (real_of_int 0) \<le> Math_round (finalLineHeight n * 10)"
    by (intro Math_round_mono) simp
  hence "0 \<le> Math_round (finalLineHeight n * 10)" by (simp only: Math_round_of_int)
  thus ?thesis by (simp add: calculateOptimalLayout_def)
qed

lemma question_painted_iff:
  assumes "1 \<le> length questions" "length questions \<le> 99"
      "\<forall>t w. length (splitTextToSize doc t w) = 1"
      "j < 2" "0 \<le> q" "q < int (length questions)"
  shows "(q \<in> paintQuestion ` set (pagePaints (downloadWorksheetPdf doc questions ! j)))
       = (40 + real (nat (q mod questionsPerColumn (int (length questions))))
                 * lineHeight (calculateOptimalLayout (int (length questions)))
            \<le> docPageHeight doc - 15
                 - lineHeight (calculateOptimalLayout (int (length questions))))"
proof -
  let ?n = "int (length questions)"
  let ?L = "calculateOptimalLayout ?n"
  let ?qpc = "questionsPerColumn ?n"
  let ?ls = "lineHeight ?L"
  let ?w = "(docPageWidth doc - 30 - (real_of_int (columns ?L) - 1) * 5)
              / real_of_int (columns ?L)"
  have n: "1 \<le> ?n" "?n \<le> 99" using assms(1,2) by simp_all
  have cols: "columns ?L = layoutColumns ?n" by (simp add: calculateOptimalLayout_def)
  have cover: "0 < ?qpc" "?n \<le> layoutColumns ?n * ?qpc"
    using layout_rows_cover [OF n(1)] by simp_all
  have ls: "0 \<le> ?ls" by (rule lineHeight_nonneg [OF n])
  have qc: "Math_ceil (real (length questions) / real_of_int (columns ?L)) = ?qpc"
    by (simp add: questionsPerColumn_def calculateOptimalLayout_def)
  have pg: "pagePaints (downloadWorksheetPdf doc questions ! j)
      = pageLoop (splitTextToSize doc) questions (layoutColumns ?n) 15 ?w 5 40
          (docPageHeight doc - 15) ?qpc ?ls (j = 1) 0"
  proof -
    from assms(4) have "j = 0 \<or> j = 1" by auto
    thus ?thesis
      unfolding downloadWorksheetPdf_def Let_def qc
      by (auto simp: renderPdfPage_def cols)
  qed
  have set_eq: "paintQuestion ` set (pagePaints (downloadWorksheetPdf doc questions ! j))
      = {x. \<exists>c r. int c < layoutColumns ?n \<and> int r < ?qpc \<and> x = int c * ?qpc + int r
               \<and> x < ?n \<and> 40 + real r * ?ls \<le> docPageHeight doc - 15 - ?ls}"
    unfolding pg
    using pageLoop_questions_nowrap [OF assms(3) ls, of questions "layoutColumns ?n" 15 ?w 5 40
        "docPageHeight doc - 15" ?qpc "j = 1" 0]
    by simp
  show ?thesis
  proof
    assume "q \<in> paintQuestion ` set (pagePaints (downloadWorksheetPdf doc questions ! j))"
    then obtain c r where cr: "int r < ?qpc" "q = int c * ?qpc + int r"
        "40 + real r * ?ls \<le> docPageHeight doc - 15 - ?ls"
      unfolding set_eq by blast
    have "int r = q mod ?qpc" using column_major [OF cr(2) cr(1)] by simp
    hence "nat (q mod ?qpc) = r" by simp
    with cr(3) show "40 + real (nat (q mod ?qpc)) * ?ls \<le> docPageHeight doc - 15 - ?ls"
      by simp
  next
    assume y: "40 + real (nat (q mod ?qpc)) * ?ls \<le> docPageHeight doc - 15 - ?ls"
    let ?c = "nat (q div ?qpc)" and ?r = "nat (q mod ?qpc)"
    have d: "0 \<le> q div ?qpc" using assms(5) cover(1) by (simp add: pos_imp_zdiv_nonneg_iff)
    have m: "0 \<le> q mod ?qpc" "q mod ?qpc < ?qpc" using cover(1) by simp_all
    have "q < layoutColumns ?n * ?qpc" using assms(6) cover(2) by linarith
    have "q div ?qpc < layoutColumns ?n"
    proof (rule ccontr)
      assume "\<not> q div ?qpc < layoutColumns ?n"
      hence "layoutColumns ?n \<le> q div ?qpc" by simp
      hence "layoutColumns ?n * ?qpc \<le> (q div ?qpc) * ?qpc"
        using cover(1) by (intro mult_right_mono) simp_all
      moreover have "(q div ?qpc) * ?qpc + q mod ?qpc = q" by simp
      ultimately show False
        using m(1) \<open>q < layoutColumns ?n * ?qpc\<close> by linarith
    qed
    hence "int ?c < layoutColumns ?n" using d by simp
    moreover have "int ?r < ?qpc" using m by simp
    moreover have "q = int ?c * ?qpc + int ?r" using d m by simp
    ultimately show "q \<in> paintQuestion ` set (pagePaints (downloadWorksheetPdf doc questions ! j))"
      unfolding set_eq using assms(6) y by blast
  qed
qed

text \<open>The pages for six questions: two columns of three rows.\<close>

lemma layout_six:
  "columns (calculateOptimalLayout 6) = 2 \<and> lineHeight (calculateOptimalLayout 6) = 807 / 10"
  by (simp add: calculateOptimalLayout_def finalLineHeight_def rawLineHeight_def usableHeight_eq
      questionsPerColumn_def layoutColumns_def Math_ceil_def Math_round_def)

lemma six_questions_titles:
  "map pageTitle (downloadWorksheetPdf a4NoWrap (replicate 6 sampleQuestion))
   = [''Timestable worksheet'', ''Timestable worksheet - Answer key'']"
  by (simp add: downloadWorksheetPdf_def renderPdfPage_def Let_def)

lemma six_questions_places:
  "map (\<lambda>page. map paintPlace (pagePaints page))
     (downloadWorksheetPdf a4NoWrap (replicate 6 sampleQuestion))
   = [[(0, 0, 0, 0, 15, 40), (1, 0, 1, 0, 15, 1207 / 10),
       (3, 1, 0, 0, 215 / 2, 40), (4, 1, 1, 0, 215 / 2, 1207 / 10)],
      [(0, 0, 0, 0, 15, 40), (1, 0, 1, 0, 15, 1207 / 10),
       (3, 1, 0, 0, 215 / 2, 40), (4, 1, 1, 0, 215 / 2, 1207 / 10)]]"
  by (simp add: downloadWorksheetPdf_def layout_six renderPdfPage_def a4NoWrap_def Math_ceil_def
      Let_def pageLoop.simps columnLoop.simps paintPlace_def numeral_eq_Suc)

lemma six_questions_texts:
  "map (\<lambda>page. map paintText (pagePaints page))
     (downloadWorksheetPdf a4NoWrap (replicate 6 sampleQuestion))
   = [[''1) 2 '' @ [timesSign] @ '' 4 = ______'', ''2) 2 '' @ [timesSign] @ '' 4 = ______'',
       ''4) 2 '' @ [timesSign] @ '' 4 = ______'', ''5) 2 '' @ [timesSign] @ '' 4 = ______''],
      [''1) 2 '' @ [timesSign] @ '' 4 = 8'', ''2) 2 '' @ [timesSign] @ '' 4 = 8'',
       ''4) 2 '' @ [timesSign] @ '' 4 = 8'', ''5) 2 '' @ [timesSign] @ '' 4 = 8'']]"
  by (simp add: downloadWorksheetPdf_def layout_six renderPdfPage_def a4NoWrap_def Math_ceil_def
      Let_def pageLoop.simps columnLoop.simps numberedText_def sampleQuestion_def
      numberToString_def digitsOf.simps blank_def timesSign_def numeral_eq_Suc)

lemma six_questions_painted:
  "map (\<lambda>page. map paintQuestion (pagePaints page))
     (downloadWorksheetPdf a4NoWrap (replicate 6 sampleQuestion))
   = [[0, 1, 3, 4], [0, 1, 3, 4]]"
  by (simp add: downloadWorksheetPdf_def layout_six renderPdfPage_def a4NoWrap_def Math_ceil_def
      Let_def pageLoop.simps columnLoop.simps numeral_eq_Suc)

text \<open>
  C9. The claim is that the exporter paints two pages, the first with the blanks and the
  second with the answers, from the same geometry, and places the question \<open>i\<close> in
  column \<open>i div questionsPerColumn\<close> and row \<open>i mod questionsPerColumn\<close>, for every
  worksheet of 1 to 99 questions. With six questions there are two columns of three rows
  and a line height of 80.7. Both pages paint the questions 0, 1, 3 and 4, each in that
  column and row, with the blank on the first page and the answer 8 on the second. The
  questions 2 and 5, which belong in row 2 of the columns 0 and 1, are placed on neither
  page: their row meets the overflow check, since three rows of 80.7 need 242.1 of the
  242 available.
\<close>

theorem pdf_six_questions_two_unplaced:
  "length (replicate 6 sampleQuestion) = 6
   \<and> questionsPerColumn 6 = 3
   \<and> map pageTitle (downloadWorksheetPdf a4NoWrap (replicate 6 sampleQuestion))
     = [''Timestable worksheet'', ''Timestable worksheet - Answer key'']
   \<and> map (\<lambda>page. map paintPlace (pagePaints page))
       (downloadWorksheetPdf a4NoWrap (replicate 6 sampleQuestion))
     = [[(0, 0, 0, 0, 15, 40), (1, 0, 1, 0, 15, 1207 / 10),
         (3, 1, 0, 0, 215 / 2, 40), (4, 1, 1, 0, 215 / 2, 1207 / 10)],
        [(0, 0, 0, 0, 15, 40), (1, 0, 1, 0, 15, 1207 / 10),
         (3, 1, 0, 0, 215 / 2, 40), (4, 1, 1, 0, 215 / 2, 1207 / 10)]]
   \<and> map (\<lambda>page. map paintText (pagePaints page))
       (downloadWorksheetPdf a4NoWrap (replicate 6 sampleQuestion))
     = [[''1) 2 '' @ [timesSign] @ '' 4 = ______'', ''2) 2 '' @ [timesSign] @ '' 4 = ______'',
         ''4) 2 '' @ [timesSign] @ '' 4 = ______'', ''5) 2 '' @ [timesSign] @ '' 4 = ______''],
        [''1) 2 '' @ [timesSign] @ '' 4 = 8'', ''2) 2 '' @ [timesSign] @ '' 4 = 8'',
         ''4) 2 '' @ [timesSign] @ '' 4 = 8'', ''5) 2 '' @ [timesSign] @ '' 4 = 8'']]
   \<and> map (\<lambda>page. map paintQuestion (pagePaints page))
       (downloadWorksheetPdf a4NoWrap (replicate 6 sampleQuestion))
     = [[0, 1, 3, 4], [0, 1, 3, 4]]
   \<and> (2 :: int) div questionsPerColumn 6 = 0 \<and> (2 :: int) mod questionsPerColumn 6 = 2
   \<and> (5 :: int) div questionsPerColumn 6 = 1 \<and> (5 :: int) mod questionsPerColumn 6 = 2
   \<and> (2 :: int) \<notin> set [0, 1, 3, 4] \<and> (5 :: int) \<notin> set [0, 1, 3, 4]
   \<and> real_of_int (questionsPerColumn 6) * lineHeight (calculateOptimalLayout 6)
       > usableHeight"
proof -
  have q: "questionsPerColumn 6 = 3"
    by (simp add: questionsPerColumn_def layoutColumns_def Math_ceil_def)
  show ?thesis
    unfolding q
    using six_questions_titles six_questions_places six_questions_texts six_questions_painted
      layout_six
    by (simp add: usableHeight_eq)
qed

end
